theory Spec2Isabelle
  imports Complex_Main
begin

section \<open>Data model\<close>

text \<open>
  A piece code of the JavaScript source is a one-letter string: the letter is the piece
  type and its case the colour (upper case white, lower case black). A cell of the board
  holds a piece code or \<open>null\<close>. Here a piece is the pair of its colour and type, so
  \<open>'R'\<close> is \<open>(White, Rook)\<close> and \<open>'k'\<close> is \<open>(Black, King)\<close>, and a cell is a
  \<open>piece option\<close>.
\<close>

datatype color = White | Black

datatype ptype = Pawn | Knight | Bishop | Rook | Queen | King

type_synonym piece = "color \<times> ptype"

type_synonym square = "int \<times> int"

text \<open>
  The board is an array of eight rows of eight cells. It is modelled as the function
  from \<open>(row, col)\<close> to the cell. Only the cells with both coordinates in \<open>0..7\<close> are
  cells of the array; what JavaScript does outside them is written out where the source
  can get there: reading \<open>board[row][col]\<close> with \<open>row\<close> outside \<open>0..7\<close> indexes
  \<open>undefined\<close> and raises a \<open>TypeError\<close>, and with \<open>row\<close> inside and \<open>col\<close>
  outside it yields \<open>undefined\<close>, which every test of the source treats like \<open>null\<close>.
\<close>

type_synonym board = "square \<Rightarrow> piece option"

datatype error = TypeError

record castlingRights =
  whiteKingside :: bool
  whiteQueenside :: bool
  blackKingside :: bool
  blackQueenside :: bool

type_synonym enPassantSquare = "square option"

section \<open>utils.js\<close>

definition PIECE_VALUE :: "ptype \<Rightarrow> rat" where
  "PIECE_VALUE t =
     (case t of Pawn \<Rightarrow> 1 | Knight \<Rightarrow> 3 | Bishop \<Rightarrow> 3 | Rook \<Rightarrow> 5 | Queen \<Rightarrow> 9 | King \<Rightarrow> 0)"

definition getPieceColor :: "piece option \<Rightarrow> color option" where
  "getPieceColor piece = (case piece of None \<Rightarrow> None | Some p \<Rightarrow> Some (fst p))"

definition getPieceType :: "piece option \<Rightarrow> ptype option" where
  "getPieceType piece = (case piece of None \<Rightarrow> None | Some p \<Rightarrow> Some (snd p))"

definition isValidCoord :: "int \<Rightarrow> int \<Rightarrow> bool" where
  "isValidCoord row col = (row \<ge> 0 \<and> row < 8 \<and> col \<ge> 0 \<and> col < 8)"

text \<open>The unguarded read \<open>board[row][col]\<close> of a caller-supplied coordinate.\<close>

definition readCell :: "board \<Rightarrow> int \<Rightarrow> int \<Rightarrow> error + piece option" where
  "readCell board row col =
     (if 0 \<le> row \<and> row < 8
      then Inr (if 0 \<le> col \<and> col < 8 then board (row, col) else None)
      else Inl TypeError)"

text \<open>
  The two nested loops \<open>for row = 0..7, for col = 0..7\<close> of \<open>getPiecesOfColor\<close> and
  \<open>findKing\<close> visit the squares in this order.
\<close>

definition allSquares :: "square list" where
  "allSquares = concat (map (\<lambda>row. map (\<lambda>col. (row, col)) [0..7]) [0..7])"

definition getPiecesOfColor :: "board \<Rightarrow> color \<Rightarrow> (piece \<times> int \<times> int) list" where
  "getPiecesOfColor board color =
     concat (map (\<lambda>(row, col).
       (case board (row, col) of
          None \<Rightarrow> []
        | Some piece \<Rightarrow> if fst piece = color then [(piece, row, col)] else []))
       allSquares)"

definition findKing :: "board \<Rightarrow> color \<Rightarrow> square option" where
  "findKing board color = find (\<lambda>sq. board sq = Some (color, King)) allSquares"

text \<open>
  One ray of a sliding piece in \<open>generatePieceMoves\<close>: the loop over \<open>dist\<close> (here \<open>dst\<close>) stops at the
  edge of the board, and after pushing the first occupied square.
\<close>

fun rawRay :: "board \<Rightarrow> int \<Rightarrow> int \<Rightarrow> int \<Rightarrow> int \<Rightarrow> int list \<Rightarrow> square list" where
  "rawRay board row col dr dc [] = []"
| "rawRay board row col dr dc (dst # dsts) =
     (let newPos = (row + dr * dst, col + dc * dst) in
      if \<not> isValidCoord (fst newPos) (snd newPos) then []
      else if board newPos \<noteq> None then [newPos]
      else newPos # rawRay board row col dr dc dsts)"

definition rookDirections :: "(int \<times> int) list" where
  "rookDirections = [(0, 1), (0, -1), (1, 0), (-1, 0)]"

definition bishopDirections :: "(int \<times> int) list" where
  "bishopDirections = [(1, 1), (1, -1), (-1, 1), (-1, -1)]"

definition knightOffsets :: "(int \<times> int) list" where
  "knightOffsets = [(-2, -1), (-2, 1), (-1, -2), (-1, 2), (1, -2), (1, 2), (2, -1), (2, 1)]"

definition kingOffsets :: "(int \<times> int) list" where
  "kingOffsets = [(-1, -1), (-1, 0), (-1, 1), (0, -1), (0, 1), (1, -1), (1, 0), (1, 1)]"

text \<open>
  \<open>generatePieceMoves\<close> reads \<open>board[row][col]\<close> for the colour of the piece. Its one
  caller, \<open>isSquareAttacked\<close>, passes the squares found by \<open>getPiecesOfColor\<close>, which are
  on the board, so the read cannot raise there and the model reads the cell directly.
\<close>

definition generatePieceMoves :: "board \<Rightarrow> int \<Rightarrow> int \<Rightarrow> ptype \<Rightarrow> square list" where
  "generatePieceMoves board row col type =
     (let color = getPieceColor (board (row, col)) in
      case type of
        Pawn \<Rightarrow>
          (let direction = (if color = Some White then -1 else 1);
               startRow = (if color = Some White then 6 else 1);
               oneForward = (row + direction, col);
               forward =
                 (if isValidCoord (fst oneForward) (snd oneForward) \<and> board oneForward = None
                  then oneForward #
                    (if row = startRow
                     then (let twoForward = (row + 2 * direction, col) in
                           if board twoForward = None then [twoForward] else [])
                     else [])
                  else []);
               captures =
                 concat (map (\<lambda>dCol.
                   (let capturePos = (row + direction, col + dCol) in
                    if isValidCoord (fst capturePos) (snd capturePos)
                    then (if board capturePos \<noteq> None then [capturePos] else [])
                    else [])) [-1, 1])
           in forward @ captures)
      | Knight \<Rightarrow>
          filter (\<lambda>newPos. isValidCoord (fst newPos) (snd newPos))
            (map (\<lambda>(dr, dc). (row + dr, col + dc)) knightOffsets)
      | King \<Rightarrow>
          filter (\<lambda>newPos. isValidCoord (fst newPos) (snd newPos))
            (map (\<lambda>(dr, dc). (row + dr, col + dc)) kingOffsets)
      | _ \<Rightarrow>
          (let directions =
                 (if type = Rook \<or> type = Queen then rookDirections else []) @
                 (if type = Bishop \<or> type = Queen then bishopDirections else [])
           in concat (map (\<lambda>(dr, dc). rawRay board row col dr dc [1..7]) directions)))"

definition opponentOf :: "color \<Rightarrow> color" where
  "opponentOf color = (if color = White then Black else White)"

definition isSquareAttacked :: "board \<Rightarrow> int \<Rightarrow> int \<Rightarrow> color \<Rightarrow> bool" where
  "isSquareAttacked board row col color =
     (let opponent = opponentOf color;
          pieces = getPiecesOfColor board opponent
      in list_ex (\<lambda>(piece, pRow, pCol).
           (row, col) \<in> set (generatePieceMoves board pRow pCol (snd piece))) pieces)"

section \<open>board.js\<close>

text \<open>\<open>Board.getPieceAt\<close>, on the board array the object holds.\<close>

definition getPieceAt :: "board \<Rightarrow> int \<Rightarrow> int \<Rightarrow> error + piece option" where
  "getPieceAt board row col =
     (if \<not> isValidCoord row col then Inr None else readCell board row col)"

section \<open>pieces.js\<close>

definition getPawnMoves :: "board \<Rightarrow> int \<Rightarrow> int \<Rightarrow> color \<Rightarrow> square list" where
  "getPawnMoves board row col color =
     (let direction = (if color = White then -1 else 1);
          startRow = (if color = White then 6 else 1);
          oneForward = row + direction;
          forward =
            (if isValidCoord oneForward col \<and> board (oneForward, col) = None
             then (oneForward, col) #
               (if row = startRow
                then (let twoForward = row + 2 * direction in
                      if board (twoForward, col) = None then [(twoForward, col)] else [])
                else [])
             else []);
          captures =
            concat (map (\<lambda>dCol.
              (let captureRow = row + direction; captureCol = col + dCol in
               if isValidCoord captureRow captureCol
               then (case board (captureRow, captureCol) of
                       None \<Rightarrow> []
                     | Some target \<Rightarrow>
                         if fst target \<noteq> color then [(captureRow, captureCol)] else [])
               else [])) [-1, 1])
      in forward @ captures)"

definition stepMoves :: "board \<Rightarrow> int \<Rightarrow> int \<Rightarrow> color \<Rightarrow> (int \<times> int) list \<Rightarrow> square list" where
  "stepMoves board row col color offsets =
     filter (\<lambda>(newRow, newCol).
         isValidCoord newRow newCol \<and>
         (case board (newRow, newCol) of None \<Rightarrow> True | Some target \<Rightarrow> fst target \<noteq> color))
       (map (\<lambda>(dr, dc). (row + dr, col + dc)) offsets)"

definition getKnightMoves :: "board \<Rightarrow> int \<Rightarrow> int \<Rightarrow> color \<Rightarrow> square list" where
  "getKnightMoves board row col color = stepMoves board row col color knightOffsets"

definition getKingMoves :: "board \<Rightarrow> int \<Rightarrow> int \<Rightarrow> color \<Rightarrow> square list" where
  "getKingMoves board row col color = stepMoves board row col color kingOffsets"

text \<open>
  One ray of \<open>getBishopMoves\<close>, \<open>getRookMoves\<close> and \<open>getQueenMoves\<close> (the three loops
  are the same): an empty square is pushed and the ray goes on, an occupied one ends the
  ray and is pushed when the piece on it is not of the mover's colour.
\<close>

fun slideRay :: "board \<Rightarrow> int \<Rightarrow> int \<Rightarrow> color \<Rightarrow> int \<Rightarrow> int \<Rightarrow> int list \<Rightarrow> square list" where
  "slideRay board row col color dr dc [] = []"
| "slideRay board row col color dr dc (dst # dsts) =
     (let newRow = row + dr * dst; newCol = col + dc * dst in
      if \<not> isValidCoord newRow newCol then []
      else (case board (newRow, newCol) of
              None \<Rightarrow> (newRow, newCol) # slideRay board row col color dr dc dsts
            | Some target \<Rightarrow> if fst target \<noteq> color then [(newRow, newCol)] else []))"

definition slideMoves :: "board \<Rightarrow> int \<Rightarrow> int \<Rightarrow> color \<Rightarrow> (int \<times> int) list \<Rightarrow> square list" where
  "slideMoves board row col color directions =
     concat (map (\<lambda>(dr, dc). slideRay board row col color dr dc [1..7]) directions)"

definition getBishopMoves :: "board \<Rightarrow> int \<Rightarrow> int \<Rightarrow> color \<Rightarrow> square list" where
  "getBishopMoves board row col color = slideMoves board row col color bishopDirections"

definition getRookMoves :: "board \<Rightarrow> int \<Rightarrow> int \<Rightarrow> color \<Rightarrow> square list" where
  "getRookMoves board row col color = slideMoves board row col color rookDirections"

definition getQueenMoves :: "board \<Rightarrow> int \<Rightarrow> int \<Rightarrow> color \<Rightarrow> square list" where
  "getQueenMoves board row col color =
     slideMoves board row col color (rookDirections @ bishopDirections)"

definition getPseudoLegalMoves :: "board \<Rightarrow> int \<Rightarrow> int \<Rightarrow> error + square list" where
  "getPseudoLegalMoves board row col =
     (case readCell board row col of
        Inl e \<Rightarrow> Inl e
      | Inr None \<Rightarrow> Inr []
      | Inr (Some piece) \<Rightarrow>
          (let color = fst piece in
           Inr (case snd piece of
                  Pawn \<Rightarrow> getPawnMoves board row col color
                | Knight \<Rightarrow> getKnightMoves board row col color
                | Bishop \<Rightarrow> getBishopMoves board row col color
                | Rook \<Rightarrow> getRookMoves board row col color
                | Queen \<Rightarrow> getQueenMoves board row col color
                | King \<Rightarrow> getKingMoves board row col color)))"

definition getCastlingMoves ::
  "board \<Rightarrow> int \<Rightarrow> int \<Rightarrow> color \<Rightarrow> castlingRights \<Rightarrow> square list" where
  "getCastlingMoves board kingRow kingCol color rights =
     (let isWhite = (color = White) in
      if (isWhite \<and> kingRow \<noteq> 7) \<or> (\<not> isWhite \<and> kingRow \<noteq> 0) then []
      else
        (if isWhite \<and> whiteKingside rights
         then (if board (7, 7) = Some (White, Rook) \<and> board (7, 5) = None \<and> board (7, 6) = None
               then [(7, 6)] else [])
         else if \<not> isWhite \<and> blackKingside rights
         then (if board (0, 7) = Some (Black, Rook) \<and> board (0, 5) = None \<and> board (0, 6) = None
               then [(0, 6)] else [])
         else []) @
        (if isWhite \<and> whiteQueenside rights
         then (if board (7, 0) = Some (White, Rook) \<and> board (7, 1) = None \<and>
                  board (7, 2) = None \<and> board (7, 3) = None
               then [(7, 2)] else [])
         else if \<not> isWhite \<and> blackQueenside rights
         then (if board (0, 0) = Some (Black, Rook) \<and> board (0, 1) = None \<and>
                  board (0, 2) = None \<and> board (0, 3) = None
               then [(0, 2)] else [])
         else []))"

text \<open>
  \<open>getEnPassantMoves\<close> is called by \<open>getLegalMoves\<close> for the square it has just read a
  pawn from, so its own read of \<open>board[pawnRow][pawnCol]\<close> is of a cell of the board.
\<close>

definition getEnPassantMoves ::
  "board \<Rightarrow> int \<Rightarrow> int \<Rightarrow> color \<Rightarrow> enPassantSquare \<Rightarrow> square list" where
  "getEnPassantMoves board pawnRow pawnCol color enPassant =
     (case enPassant of
        None \<Rightarrow> []
      | Some ep \<Rightarrow>
          if getPieceType (board (pawnRow, pawnCol)) \<noteq> Some Pawn then []
          else (let direction = (if color = White then -1 else 1);
                    captureRow = pawnRow + direction
                in if fst ep = captureRow \<and> \<bar>snd ep - pawnCol\<bar> = 1 then [ep] else []))"

section \<open>rules.js\<close>

text \<open>
  The rook relocation of a castling move, as \<open>wouldLeaveKingInCheck\<close> (and, with the
  same statements, \<open>ChessAI.simulateMove\<close>) performs it on the copy of the board after
  the king has been moved.
\<close>

definition castleRook :: "board \<Rightarrow> piece option \<Rightarrow> int \<Rightarrow> int \<Rightarrow> int \<Rightarrow> board" where
  "castleRook testBoard piece fromRow fromCol toCol =
     (if getPieceType piece = Some King
      then (let isWhite = (getPieceColor piece = Some White) in
            if isWhite \<and> fromRow = 7 \<and> fromCol = 4
            then (let tb1 = (if toCol = 6
                             then testBoard((7, 5) := testBoard (7, 7), (7, 7) := None)
                             else testBoard)
                  in if toCol = 2 then tb1((7, 3) := tb1 (7, 0), (7, 0) := None) else tb1)
            else if \<not> isWhite \<and> fromRow = 0 \<and> fromCol = 4
            then (let tb1 = (if toCol = 6
                             then testBoard((0, 5) := testBoard (0, 7), (0, 7) := None)
                             else testBoard)
                  in if toCol = 2 then tb1((0, 3) := tb1 (0, 0), (0, 0) := None) else tb1)
            else testBoard)
      else testBoard)"

text \<open>
  The board after the simulated move: the copy of the board, the en-passant or regular
  move of the piece, then the rook relocation. Reading the moved piece raises when
  \<open>fromRow\<close> is off the board, and the assignment \<open>testBoard[toRow][toCol] = piece\<close>
  raises when \<open>toRow\<close> is. An assignment to a column outside \<open>0..7\<close> of an existing row
  extends that row's array and is never read back.
\<close>

definition boardAfterMove ::
  "board \<Rightarrow> int \<Rightarrow> int \<Rightarrow> int \<Rightarrow> int \<Rightarrow> enPassantSquare \<Rightarrow> error + board" where
  "boardAfterMove board fromRow fromCol toRow toCol enPassant =
     (case readCell board fromRow fromCol of
        Inl e \<Rightarrow> Inl e
      | Inr piece \<Rightarrow>
          if \<not> (0 \<le> toRow \<and> toRow < 8) then Inl TypeError
          else
            (let testBoard =
                   (if getPieceType piece = Some Pawn \<and> enPassant = Some (toRow, toCol)
                    then board((toRow, toCol) := piece, (fromRow, fromCol) := None,
                               (fromRow, toCol) := None)
                    else board((toRow, toCol) := piece, (fromRow, fromCol) := None))
             in Inr (castleRook testBoard piece fromRow fromCol toCol)))"

definition wouldLeaveKingInCheck ::
  "board \<Rightarrow> int \<Rightarrow> int \<Rightarrow> int \<Rightarrow> int \<Rightarrow> color \<Rightarrow> castlingRights \<Rightarrow> enPassantSquare
     \<Rightarrow> error + bool" where
  "wouldLeaveKingInCheck board fromRow fromCol toRow toCol color rights enPassant =
     (case boardAfterMove board fromRow fromCol toRow toCol enPassant of
        Inl e \<Rightarrow> Inl e
      | Inr testBoard \<Rightarrow>
          (case findKing testBoard color of
             None \<Rightarrow> Inr True
           | Some kingPos \<Rightarrow>
               Inr (isSquareAttacked testBoard (fst kingPos) (snd kingPos) color)))"

text \<open>
  \<open>pseudoLegal.filter(...)\<close> with the predicate \<open>!wouldLeaveKingInCheck(...)\<close>: the
  candidates are tested in order, and an exception of the predicate ends the filter.
\<close>

fun filterLegal ::
  "board \<Rightarrow> int \<Rightarrow> int \<Rightarrow> color \<Rightarrow> castlingRights \<Rightarrow> enPassantSquare \<Rightarrow> square list
     \<Rightarrow> error + square list" where
  "filterLegal board row col color rights enPassant [] = Inr []"
| "filterLegal board row col color rights enPassant (dest # dests) =
     (case wouldLeaveKingInCheck board row col (fst dest) (snd dest) color rights enPassant of
        Inl e \<Rightarrow> Inl e
      | Inr inCheck \<Rightarrow>
          (case filterLegal board row col color rights enPassant dests of
             Inl e \<Rightarrow> Inl e
           | Inr legal \<Rightarrow> Inr (if inCheck then legal else dest # legal)))"

definition getLegalMoves ::
  "board \<Rightarrow> int \<Rightarrow> int \<Rightarrow> castlingRights \<Rightarrow> enPassantSquare \<Rightarrow> color
     \<Rightarrow> error + square list" where
  "getLegalMoves board row col rights enPassant color =
     (case readCell board row col of
        Inl e \<Rightarrow> Inl e
      | Inr piece \<Rightarrow>
          if piece = None \<or> getPieceColor piece \<noteq> Some color then Inr []
          else
            (case getPseudoLegalMoves board row col of
               Inl e \<Rightarrow> Inl e
             | Inr pseudoLegal \<Rightarrow>
                 (let type = getPieceType piece;
                      castles = (if type = Some King
                                 then getCastlingMoves board row col color rights else []);
                      enPassantMoves = (if type = Some Pawn
                                 then getEnPassantMoves board row col color enPassant else [])
                  in filterLegal board row col color rights enPassant
                       (pseudoLegal @ castles @ enPassantMoves))))"

definition isInCheck :: "board \<Rightarrow> color \<Rightarrow> bool" where
  "isInCheck board color =
     (case findKing board color of
        None \<Rightarrow> False
      | Some kingPos \<Rightarrow> isSquareAttacked board (fst kingPos) (snd kingPos) color)"

text \<open>
  The loop shared by \<open>isCheckmate\<close> and \<open>isStalemate\<close>: false at the first piece with a
  legal move, true when the pieces are exhausted.
\<close>

fun noPieceCanMove ::
  "board \<Rightarrow> color \<Rightarrow> castlingRights \<Rightarrow> enPassantSquare \<Rightarrow> (piece \<times> int \<times> int) list
     \<Rightarrow> error + bool" where
  "noPieceCanMove board color rights enPassant [] = Inr True"
| "noPieceCanMove board color rights enPassant (p # pieces) =
     (case getLegalMoves board (fst (snd p)) (snd (snd p)) rights enPassant color of
        Inl e \<Rightarrow> Inl e
      | Inr legal \<Rightarrow>
          if length legal > 0 then Inr False
          else noPieceCanMove board color rights enPassant pieces)"

definition isCheckmate ::
  "board \<Rightarrow> color \<Rightarrow> castlingRights \<Rightarrow> enPassantSquare \<Rightarrow> error + bool" where
  "isCheckmate board color rights enPassant =
     (if \<not> isInCheck board color then Inr False
      else noPieceCanMove board color rights enPassant (getPiecesOfColor board color))"

definition isStalemate ::
  "board \<Rightarrow> color \<Rightarrow> castlingRights \<Rightarrow> enPassantSquare \<Rightarrow> error + bool" where
  "isStalemate board color rights enPassant =
     (if isInCheck board color then Inr False
      else noPieceCanMove board color rights enPassant (getPiecesOfColor board color))"

definition isInsufficientMaterial :: "board \<Rightarrow> bool" where
  "isInsufficientMaterial board =
     (let whitePieces = getPiecesOfColor board White;
          blackPieces = getPiecesOfColor board Black
      in if length whitePieces = 1 \<and> length blackPieces = 1 then True
         else
           (let whiteNonKing = filter (\<lambda>p. snd (fst p) \<noteq> King) whitePieces;
                blackNonKing = filter (\<lambda>p. snd (fst p) \<noteq> King) blackPieces
            in if length whiteNonKing = 0 \<and> length blackNonKing = 0 then True
               else if ((length whiteNonKing = 1 \<and> length blackNonKing = 0) \<or>
                        (length whiteNonKing = 0 \<and> length blackNonKing = 1)) \<and>
                       (let piece = (if length whiteNonKing = 1
                                     then hd whiteNonKing else hd blackNonKing);
                            type = snd (fst piece)
                        in type = Knight \<or> type = Bishop)
               then True
               else if length whiteNonKing = 1 \<and> length blackNonKing = 1 \<and>
                       snd (fst (hd whiteNonKing)) = Bishop \<and>
                       snd (fst (hd blackNonKing)) = Bishop \<and>
                       (let (wRow, wCol) = snd (hd whiteNonKing);
                            (bRow, bCol) = snd (hd blackNonKing)
                        in (wRow + wCol) mod 2 = (bRow + bCol) mod 2)
               then True
               else False))"

text \<open>
  \<open>updateCastlingRights\<close> takes the moved piece; \<open>simulateMove\<close> passes whatever the
  origin cell held, which may be \<open>null\<close>.
\<close>

definition updateCastlingRights ::
  "castlingRights \<Rightarrow> int \<Rightarrow> int \<Rightarrow> piece option \<Rightarrow> castlingRights" where
  "updateCastlingRights rights fromRow fromCol piece =
     (let type = getPieceType piece;
          color = getPieceColor piece;
          r1 = (if type = Some King
                then (if color = Some White
                      then rights\<lparr>whiteKingside := False, whiteQueenside := False\<rparr>
                      else rights\<lparr>blackKingside := False, blackQueenside := False\<rparr>)
                else rights);
          r2 = (if color = Some White \<and> fromRow = 7 \<and> fromCol = 7
                then r1\<lparr>whiteKingside := False\<rparr> else r1);
          r3 = (if color = Some White \<and> fromRow = 7 \<and> fromCol = 0
                then r2\<lparr>whiteQueenside := False\<rparr> else r2);
          r4 = (if color = Some Black \<and> fromRow = 0 \<and> fromCol = 7
                then r3\<lparr>blackKingside := False\<rparr> else r3)
      in if color = Some Black \<and> fromRow = 0 \<and> fromCol = 0
         then r4\<lparr>blackQueenside := False\<rparr> else r4)"

text \<open>
  The rows are integers; when they differ by two their sum is even, so the JavaScript
  division \<open>(fromRow + toRow) / 2\<close> is exact and is the integer division here.
\<close>

definition updateEnPassantSquare ::
  "int \<Rightarrow> int \<Rightarrow> int \<Rightarrow> piece option \<Rightarrow> enPassantSquare" where
  "updateEnPassantSquare fromRow toRow toCol piece =
     (if getPieceType piece \<noteq> Some Pawn then None
      else if \<bar>toRow - fromRow\<bar> \<noteq> 2 then None
      else (let enPassantRow = (fromRow + toRow) div 2 in Some (enPassantRow, toCol)))"

section \<open>ai.js\<close>

text \<open>
  A move of the search is the object \<open>{from: [r, c], to: [r, c]}\<close>: here the pair of
  the origin and the destination square.
\<close>

type_synonym move = "square \<times> square"

text \<open>
  Scores are JavaScript numbers: the static evaluation, \<open>0\<close>, \<open>\<plusminus>10000\<close>, and the
  \<open>-Infinity\<close> and \<open>Infinity\<close> the running best value and the window start from. The
  finite ones are modelled as rationals, that is, the arithmetic of \<open>evaluateBoard\<close>
  is taken exactly where the source rounds to a double; the search itself only compares
  scores and takes their maximum and minimum.
\<close>

datatype score = NegInf | Fin rat | PosInf

instantiation score :: linorder
begin

fun less_eq_score :: "score \<Rightarrow> score \<Rightarrow> bool" where
  "less_eq_score NegInf y = True"
| "less_eq_score (Fin x) NegInf = False"
| "less_eq_score (Fin x) (Fin y) = (x \<le> y)"
| "less_eq_score (Fin x) PosInf = True"
| "less_eq_score PosInf NegInf = False"
| "less_eq_score PosInf (Fin y) = False"
| "less_eq_score PosInf PosInf = True"

definition less_score :: "score \<Rightarrow> score \<Rightarrow> bool" where
  "less_score x y = (x \<le> y \<and> \<not> y \<le> x)"

instance
proof
  fix x y z :: score
  show "(x < y) = (x \<le> y \<and> \<not> y \<le> x)" by (simp add: less_score_def)
  show "x \<le> x" by (cases x) simp_all
  show "x \<le> y \<Longrightarrow> y \<le> z \<Longrightarrow> x \<le> z" by (cases x; cases y; cases z) simp_all
  show "x \<le> y \<Longrightarrow> y \<le> x \<Longrightarrow> x = y" by (cases x; cases y) simp_all
  show "x \<le> y \<or> y \<le> x" by (cases x; cases y) auto
qed

end

definition evaluateKingSafety :: "board \<Rightarrow> square \<Rightarrow> color \<Rightarrow> rat" where
  "evaluateKingSafety board kingPos color =
     (let kingCol = snd kingPos;
          safety1 = (if kingCol = 6 \<or> kingCol = 2 then 15 else 0)
      in if kingCol \<ge> 3 \<and> kingCol \<le> 4 \<and> fst kingPos \<ge> 2 \<and> fst kingPos \<le> 5
         then safety1 - 20 else safety1)"

definition evaluateCenterControl :: "board \<Rightarrow> color \<Rightarrow> rat" where
  "evaluateCenterControl board color =
     sum_list (map (\<lambda>sq.
       (case board sq of
          None \<Rightarrow> 0
        | Some piece \<Rightarrow>
            if fst piece = color then PIECE_VALUE (snd piece) else - PIECE_VALUE (snd piece)))
       [(3, 3), (3, 4), (4, 3), (4, 4)])"

definition evaluateMobility :: "board \<Rightarrow> color \<Rightarrow> rat" where
  "evaluateMobility board color = of_nat (length (getPiecesOfColor board color) * 2)"

definition evaluateBoard :: "board \<Rightarrow> color \<Rightarrow> rat" where
  "evaluateBoard board color =
     (let whitePieces = getPiecesOfColor board White;
          blackPieces = getPiecesOfColor board Black;
          material = sum_list (map (\<lambda>p. PIECE_VALUE (snd (fst p))) whitePieces)
                   - sum_list (map (\<lambda>p. PIECE_VALUE (snd (fst p))) blackPieces);
          score1 = (if color = Black then - material else material);
          score2 = (case findKing board color of
                      None \<Rightarrow> score1
                    | Some kingPos \<Rightarrow> score1 + evaluateKingSafety board kingPos color);
          score3 = score2 + evaluateCenterControl board color * (3 / 10)
      in score3 + evaluateMobility board color * (1 / 10))"

fun collectLegalMoves ::
  "board \<Rightarrow> color \<Rightarrow> castlingRights \<Rightarrow> enPassantSquare \<Rightarrow> (piece \<times> int \<times> int) list
     \<Rightarrow> error + move list" where
  "collectLegalMoves board color rights enPassant [] = Inr []"
| "collectLegalMoves board color rights enPassant (p # pieces) =
     (let row = fst (snd p); col = snd (snd p) in
      case getLegalMoves board row col rights enPassant color of
        Inl e \<Rightarrow> Inl e
      | Inr legalMoves \<Rightarrow>
          (case collectLegalMoves board color rights enPassant pieces of
             Inl e \<Rightarrow> Inl e
           | Inr moves \<Rightarrow> Inr (map (\<lambda>dest. ((row, col), dest)) legalMoves @ moves)))"

definition getAllLegalMoves ::
  "board \<Rightarrow> color \<Rightarrow> castlingRights \<Rightarrow> enPassantSquare \<Rightarrow> error + move list" where
  "getAllLegalMoves board color rights enPassant =
     collectLegalMoves board color rights enPassant (getPiecesOfColor board color)"

text \<open>
  \<open>simulateMove\<close> builds \<open>newBoard\<close> with the statements of \<open>wouldLeaveKingInCheck\<close>
  (\<open>boardAfterMove\<close>), then the rights, with the adjustment for a rook captured on its
  corner, and the en-passant target.
\<close>

definition simulateMove ::
  "board \<Rightarrow> move \<Rightarrow> castlingRights \<Rightarrow> enPassantSquare
     \<Rightarrow> error + (board \<times> castlingRights \<times> enPassantSquare)" where
  "simulateMove board move rights enPassant =
     (let fromRow = fst (fst move); fromCol = snd (fst move);
          toRow = fst (snd move); toCol = snd (snd move)
      in case readCell board fromRow fromCol of
           Inl e \<Rightarrow> Inl e
         | Inr piece \<Rightarrow>
        (case boardAfterMove board fromRow fromCol toRow toCol enPassant of
           Inl e \<Rightarrow> Inl e
         | Inr newBoard \<Rightarrow>
        (case readCell board toRow toCol of
           Inl e \<Rightarrow> Inl e
         | Inr capturedPiece \<Rightarrow>
             (let updated = updateCastlingRights rights fromRow fromCol piece;
                  newCastling =
                    (if getPieceType capturedPiece = Some Rook
                     then (if getPieceColor capturedPiece = Some White
                           then (let c1 = (if toRow = 7 \<and> toCol = 7
                                           then updated\<lparr>whiteKingside := False\<rparr> else updated)
                                 in if toRow = 7 \<and> toCol = 0
                                    then c1\<lparr>whiteQueenside := False\<rparr> else c1)
                           else (let c1 = (if toRow = 0 \<and> toCol = 7
                                           then updated\<lparr>blackKingside := False\<rparr> else updated)
                                 in if toRow = 0 \<and> toCol = 0
                                    then c1\<lparr>blackQueenside := False\<rparr> else c1))
                     else updated);
                  newEnPassant =
                    (if getPieceType piece = Some Pawn \<and> \<bar>toRow - fromRow\<bar> = 2
                     then Some ((fromRow + toRow) div 2, toCol) else None)
              in Inr (newBoard, newCastling, newEnPassant)))))"

text \<open>
  The loop \<open>for (const move of moves)\<close> of \<open>minimaxSearch\<close>; \<open>child\<close> is its body up
  to the score of the recursive call.
\<close>

fun minimaxSearchLoop ::
  "bool \<Rightarrow> (move \<Rightarrow> error + score) \<Rightarrow> move list \<Rightarrow> score \<Rightarrow> error + score" where
  "minimaxSearchLoop isMaximizing child [] bestScore = Inr bestScore"
| "minimaxSearchLoop isMaximizing child (move # moves) bestScore =
     (case child move of
        Inl e \<Rightarrow> Inl e
      | Inr s \<Rightarrow>
          minimaxSearchLoop isMaximizing child moves
            (if isMaximizing then max bestScore s else min bestScore s))"

text \<open>The depth is a natural number: the callers pass \<open>maxDepth - 1\<close> and count down.\<close>

fun minimaxSearch ::
  "board \<Rightarrow> color \<Rightarrow> castlingRights \<Rightarrow> enPassantSquare \<Rightarrow> nat \<Rightarrow> bool \<Rightarrow> error + score" where
  "minimaxSearch board color rights enPassant depth isMaximizing =
     (let opponent = opponentOf color;
          sideToMove = (if isMaximizing then color else opponent)
      in case isCheckmate board sideToMove rights enPassant of
           Inl e \<Rightarrow> Inl e
         | Inr True \<Rightarrow> Inr (Fin (if isMaximizing then 10000 else - 10000))
         | Inr False \<Rightarrow>
        (case isStalemate board sideToMove rights enPassant of
           Inl e \<Rightarrow> Inl e
         | Inr True \<Rightarrow> Inr (Fin 0)
         | Inr False \<Rightarrow>
             if isInsufficientMaterial board then Inr (Fin 0)
             else
               (case depth of
                  0 \<Rightarrow> Inr (Fin (evaluateBoard board color))
                | Suc d \<Rightarrow>
                    (case getAllLegalMoves board sideToMove rights enPassant of
                       Inl e \<Rightarrow> Inl e
                     | Inr moves \<Rightarrow>
                         minimaxSearchLoop isMaximizing
                           (\<lambda>move. case simulateMove board move rights enPassant of
                                      Inl e \<Rightarrow> Inl e
                                    | Inr (newBoard, newCastling, newEnPassant) \<Rightarrow>
                                        minimaxSearch newBoard color newCastling newEnPassant d
                                          (\<not> isMaximizing))
                           moves (if isMaximizing then NegInf else PosInf)))))"

declare minimaxSearch.simps [simp del]

text \<open>
  The loop of \<open>minimaxSearchAlphaBeta\<close>, with the window it updates and the
  \<open>break\<close> once \<open>beta <= alpha\<close>.
\<close>

fun alphaBetaSearchLoop ::
  "bool \<Rightarrow> (move \<Rightarrow> score \<Rightarrow> score \<Rightarrow> error + score) \<Rightarrow> move list
     \<Rightarrow> score \<Rightarrow> score \<Rightarrow> score \<Rightarrow> error + score" where
  "alphaBetaSearchLoop isMaximizing child [] alpha beta bestScore = Inr bestScore"
| "alphaBetaSearchLoop isMaximizing child (move # moves) alpha beta bestScore =
     (case child move alpha beta of
        Inl e \<Rightarrow> Inl e
      | Inr s \<Rightarrow>
          (let bestScore' = (if isMaximizing then max bestScore s else min bestScore s);
               alpha' = (if isMaximizing then max alpha bestScore' else alpha);
               beta' = (if isMaximizing then beta else min beta bestScore')
           in if beta' \<le> alpha' then Inr bestScore'
              else alphaBetaSearchLoop isMaximizing child moves alpha' beta' bestScore'))"

fun minimaxSearchAlphaBeta ::
  "board \<Rightarrow> color \<Rightarrow> castlingRights \<Rightarrow> enPassantSquare \<Rightarrow> nat \<Rightarrow> score \<Rightarrow> score \<Rightarrow> bool
     \<Rightarrow> error + score" where
  "minimaxSearchAlphaBeta board color rights enPassant depth alpha beta isMaximizing =
     (let opponent = opponentOf color;
          sideToMove = (if isMaximizing then color else opponent)
      in case isCheckmate board sideToMove rights enPassant of
           Inl e \<Rightarrow> Inl e
         | Inr True \<Rightarrow> Inr (Fin (if isMaximizing then 10000 else - 10000))
         | Inr False \<Rightarrow>
        (case isStalemate board sideToMove rights enPassant of
           Inl e \<Rightarrow> Inl e
         | Inr True \<Rightarrow> Inr (Fin 0)
         | Inr False \<Rightarrow>
             if isInsufficientMaterial board then Inr (Fin 0)
             else
               (case depth of
                  0 \<Rightarrow> Inr (Fin (evaluateBoard board color))
                | Suc d \<Rightarrow>
                    (case getAllLegalMoves board sideToMove rights enPassant of
                       Inl e \<Rightarrow> Inl e
                     | Inr moves \<Rightarrow>
                         alphaBetaSearchLoop isMaximizing
                           (\<lambda>move a b. case simulateMove board move rights enPassant of
                                      Inl e \<Rightarrow> Inl e
                                    | Inr (newBoard, newCastling, newEnPassant) \<Rightarrow>
                                        minimaxSearchAlphaBeta newBoard color newCastling
                                          newEnPassant d a b (\<not> isMaximizing))
                           moves alpha beta (if isMaximizing then NegInf else PosInf)))))"

declare minimaxSearchAlphaBeta.simps [simp del]

text \<open>
  The loop of the root function \<open>minimax\<close>. \<open>scoreOf\<close> is the call in its body; the
  source passes it the root's own \<open>board\<close>, rights and en-passant target, not the
  position after \<open>move\<close>.
\<close>

fun minimaxLoop ::
  "bool \<Rightarrow> (move \<Rightarrow> error + score) \<Rightarrow> move list \<Rightarrow> move \<Rightarrow> score \<Rightarrow> error + move" where
  "minimaxLoop isMaximizing scoreOf [] bestMove bestValue = Inr bestMove"
| "minimaxLoop isMaximizing scoreOf (move # moves) bestMove bestValue =
     (case scoreOf move of
        Inl e \<Rightarrow> Inl e
      | Inr s \<Rightarrow>
          if isMaximizing \<and> s > bestValue then minimaxLoop isMaximizing scoreOf moves move s
          else if \<not> isMaximizing \<and> s < bestValue
          then minimaxLoop isMaximizing scoreOf moves move s
          else minimaxLoop isMaximizing scoreOf moves bestMove bestValue)"

definition minimax ::
  "board \<Rightarrow> color \<Rightarrow> castlingRights \<Rightarrow> enPassantSquare \<Rightarrow> nat \<Rightarrow> bool
     \<Rightarrow> error + move option" where
  "minimax board color rights enPassant depth isMaximizing =
     (if depth = 0 then Inr None
      else
        (case getAllLegalMoves board color rights enPassant of
           Inl e \<Rightarrow> Inl e
         | Inr [] \<Rightarrow> Inr None
         | Inr (m0 # rest) \<Rightarrow>
             (case minimaxLoop isMaximizing
                     (\<lambda>move. minimaxSearch board color rights enPassant (depth - 1)
                                (\<not> isMaximizing))
                     (m0 # rest) m0 (if isMaximizing then NegInf else PosInf) of
                Inl e \<Rightarrow> Inl e
              | Inr bestMove \<Rightarrow> Inr (Some bestMove))))"

fun minimaxAlphaBetaLoop ::
  "bool \<Rightarrow> (move \<Rightarrow> score \<Rightarrow> score \<Rightarrow> error + score) \<Rightarrow> move list
     \<Rightarrow> score \<Rightarrow> score \<Rightarrow> move \<Rightarrow> score \<Rightarrow> error + move" where
  "minimaxAlphaBetaLoop isMaximizing scoreOf [] alpha beta bestMove bestValue = Inr bestMove"
| "minimaxAlphaBetaLoop isMaximizing scoreOf (move # moves) alpha beta bestMove bestValue =
     (case scoreOf move alpha beta of
        Inl e \<Rightarrow> Inl e
      | Inr s \<Rightarrow>
          (let better = (if isMaximizing then s > bestValue else s < bestValue);
               bestValue' = (if better then s else bestValue);
               bestMove' = (if better then move else bestMove);
               alpha' = (if isMaximizing then max alpha bestValue' else alpha);
               beta' = (if isMaximizing then beta else min beta bestValue')
           in if beta' \<le> alpha' then Inr bestMove'
              else minimaxAlphaBetaLoop isMaximizing scoreOf moves alpha' beta'
                     bestMove' bestValue'))"

definition minimaxAlphaBeta ::
  "board \<Rightarrow> color \<Rightarrow> castlingRights \<Rightarrow> enPassantSquare \<Rightarrow> nat \<Rightarrow> score \<Rightarrow> score \<Rightarrow> bool
     \<Rightarrow> error + move option" where
  "minimaxAlphaBeta board color rights enPassant depth alpha beta isMaximizing =
     (if depth = 0 then Inr None
      else
        (case getAllLegalMoves board color rights enPassant of
           Inl e \<Rightarrow> Inl e
         | Inr [] \<Rightarrow> Inr None
         | Inr (m0 # rest) \<Rightarrow>
             (case minimaxAlphaBetaLoop isMaximizing
                     (\<lambda>move a b. minimaxSearchAlphaBeta board color rights enPassant
                                    (depth - 1) a b (\<not> isMaximizing))
                     (m0 # rest) alpha beta m0 (if isMaximizing then NegInf else PosInf) of
                Inl e \<Rightarrow> Inl e
              | Inr bestMove \<Rightarrow> Inr (Some bestMove))))"

section \<open>Positions used as examples\<close>

text \<open>The starting position, as \<open>Board.initializeBoard\<close> of board.js fills it.\<close>

definition initializeBoard :: board where
  "initializeBoard =
     map_of ([((0, 0), (Black, Rook)), ((0, 1), (Black, Knight)), ((0, 2), (Black, Bishop)),
              ((0, 3), (Black, Queen)), ((0, 4), (Black, King)), ((0, 5), (Black, Bishop)),
              ((0, 6), (Black, Knight)), ((0, 7), (Black, Rook))] @
             map (\<lambda>col. ((1, col), (Black, Pawn))) [0..7] @
             map (\<lambda>col. ((6, col), (White, Pawn))) [0..7] @
             [((7, 0), (White, Rook)), ((7, 1), (White, Knight)), ((7, 2), (White, Bishop)),
              ((7, 3), (White, Queen)), ((7, 4), (White, King)), ((7, 5), (White, Bishop)),
              ((7, 6), (White, Knight)), ((7, 7), (White, Rook))])"

text \<open>The rights a game starts with (the constructor of \<open>ChessGame\<close>).\<close>

definition allRights :: castlingRights where
  "allRights = \<lparr>whiteKingside = True, whiteQueenside = True,
                 blackKingside = True, blackQueenside = True\<rparr>"

text \<open>No right set.\<close>

definition noRights :: castlingRights where
  "noRights = \<lparr>whiteKingside = False, whiteQueenside = False,
                blackKingside = False, blackQueenside = False\<rparr>"

text \<open>
  A white king on d1 (row 7, column 3), one column off its home square, with the h1 rook
  on its corner and f1, g1 empty.
\<close>

definition kingOffHome :: board where
  "kingOffHome =
     map_of [((0, 4), (Black, King)), ((7, 3), (White, King)), ((7, 7), (White, Rook))]"

text \<open>
  Black is checkmated: its king in the corner, the white queen beside it on the
  diagonal, guarded by the white king.
\<close>

definition blackMated :: board where
  "blackMated =
     map_of [((0, 0), (Black, King)), ((1, 1), (White, Queen)), ((2, 2), (White, King))]"

text \<open>The mirror image: white is checkmated.\<close>

definition whiteMated :: board where
  "whiteMated =
     map_of [((7, 7), (White, King)), ((6, 6), (Black, Queen)), ((5, 5), (Black, King))]"

text \<open>
  Black to move can take the white queen with the rook (d5 takes f5); the first legal
  move in scanning order is the king's step from a8 to b8.
\<close>

definition hangingQueen :: board where
  "hangingQueen =
     map_of [((0, 0), (Black, King)), ((3, 3), (Black, Rook)),
             ((3, 5), (White, Queen)), ((7, 7), (White, King))]"

text \<open>
  A board with no white king on which white can capture en passant: the black pawn has
  just gone from d7 to d5 (row 3, column 3), beside the white pawn on c5 (row 3, column
  2); the en-passant target is d6 (row 2, column 3).
\<close>

definition kinglessEnPassant :: board where
  "kinglessEnPassant =
     map_of [((0, 4), (Black, King)), ((3, 3), (Black, Pawn)), ((3, 2), (White, Pawn))]"

text \<open>A board with no white king and a white pawn on the last rank, a8 (row 0, column 0).\<close>

definition kinglessLastRank :: board where
  "kinglessLastRank = map_of [((7, 4), (Black, King)), ((0, 0), (White, Pawn))]"

text \<open>The two kings and a black pawn on e7 (row 1, column 4).\<close>

definition lonePawn :: board where
  "lonePawn =
     map_of [((0, 0), (Black, King)), ((1, 4), (Black, Pawn)), ((7, 7), (White, King))]"

section \<open>Notions the properties are stated with\<close>

text \<open>No right of \<open>new\<close> is set that is not set in \<open>old\<close>.\<close>

definition rightsLe :: "castlingRights \<Rightarrow> castlingRights \<Rightarrow> bool" where
  "rightsLe new old =
     ((whiteKingside new \<longrightarrow> whiteKingside old) \<and>
      (whiteQueenside new \<longrightarrow> whiteQueenside old) \<and>
      (blackKingside new \<longrightarrow> blackKingside old) \<and>
      (blackQueenside new \<longrightarrow> blackQueenside old))"

text \<open>
  The score a root search is meant to give a candidate move: the move is simulated, and
  the search is run one ply down, with the roles swapped, on the position after it.
\<close>

definition candidateScore ::
  "board \<Rightarrow> color \<Rightarrow> castlingRights \<Rightarrow> enPassantSquare \<Rightarrow> nat \<Rightarrow> bool \<Rightarrow> move
     \<Rightarrow> error + score" where
  "candidateScore board color rights enPassant depth isMaximizing move =
     (case simulateMove board move rights enPassant of
        Inl e \<Rightarrow> Inl e
      | Inr (newBoard, newCastling, newEnPassant) \<Rightarrow>
          minimaxSearch newBoard color newCastling newEnPassant (depth - 1)
            (\<not> isMaximizing))"

text \<open>
  The en-passant target, when there is one, lies on a row of the board. Every target
  \<open>updateEnPassantSquare\<close> and \<open>simulateMove\<close> compute from a move between two rows of
  the board does.
\<close>

definition enPassantRowOnBoard :: "enPassantSquare \<Rightarrow> bool" where
  "enPassantRowOnBoard enPassant =
     (case enPassant of None \<Rightarrow> True | Some sq \<Rightarrow> 0 \<le> fst sq \<and> fst sq < 8)"

text \<open>No cell of the board holds a king of that colour.\<close>

definition hasNoKing :: "board \<Rightarrow> color \<Rightarrow> bool" where
  "hasNoKing board color = (\<forall>sq \<in> set allSquares. board sq \<noteq> Some (color, King))"

text \<open>
  The Attack Oracle as the specification words it, for comparison with
  \<open>isSquareAttacked\<close>: a pawn attacks its two diagonal-forward squares, whether
  occupied or not, and no other; any other piece attacks its pseudo-legal destinations.
\<close>

definition spec_pawnAttackSquares :: "int \<Rightarrow> int \<Rightarrow> color \<Rightarrow> square list" where
  "spec_pawnAttackSquares row col color =
     (let direction = (if color = White then - 1 else 1) in
      filter (\<lambda>sq. isValidCoord (fst sq) (snd sq))
        [(row + direction, col - 1), (row + direction, col + 1)])"

definition spec_attackSquares :: "board \<Rightarrow> piece \<Rightarrow> int \<Rightarrow> int \<Rightarrow> square list" where
  "spec_attackSquares board piece row col =
     (if snd piece = Pawn then spec_pawnAttackSquares row col (fst piece)
      else (case getPseudoLegalMoves board row col of Inl e \<Rightarrow> [] | Inr moves \<Rightarrow> moves))"

definition spec_isSquareAttacked :: "board \<Rightarrow> int \<Rightarrow> int \<Rightarrow> color \<Rightarrow> bool" where
  "spec_isSquareAttacked board row col color =
     list_ex (\<lambda>(piece, pRow, pCol).
         (row, col) \<in> set (spec_attackSquares board piece pRow pCol))
       (getPiecesOfColor board (opponentOf color))"

text \<open>
  How a score \<open>r\<close> returned for the window \<open>(alpha, beta)\<close> stands to the full-width
  value \<open>v\<close>: at or below \<open>alpha\<close> it is an upper bound of \<open>v\<close>, at or above \<open>beta\<close>
  a lower bound, and strictly inside the window it is \<open>v\<close>.
\<close>

definition windowAgrees :: "score \<Rightarrow> score \<Rightarrow> score \<Rightarrow> score \<Rightarrow> bool" where
  "windowAgrees alpha beta r v =
     ((r \<le> alpha \<longrightarrow> v \<le> r) \<and> (beta \<le> r \<longrightarrow> r \<le> v) \<and> (alpha < r \<and> r < beta \<longrightarrow> r = v))"

text \<open>
  The result \<open>pruned\<close> of the alpha-beta search stands to the result \<open>full\<close> of the
  plain search as the window allows: the same error, or scores that agree for the window.
\<close>

definition searchesAgree ::
  "score \<Rightarrow> score \<Rightarrow> error + score \<Rightarrow> error + score \<Rightarrow> bool" where
  "searchesAgree alpha beta full pruned =
     (case full of
        Inl e \<Rightarrow> pruned = Inl e
      | Inr v \<Rightarrow> (case pruned of Inl e \<Rightarrow> False | Inr r \<Rightarrow> windowAgrees alpha beta r v))"

text \<open>
  The checks both internal searches make before they look at the depth, in the order of
  the source: an error of the classifier, the score of a position that ends the game, or
  none. \<open>minimaxSearch_unfold\<close> and \<open>minimaxSearchAlphaBeta_unfold\<close> below show
  that the two searches start with them.
\<close>

definition terminalScore ::
  "board \<Rightarrow> color \<Rightarrow> castlingRights \<Rightarrow> enPassantSquare \<Rightarrow> bool \<Rightarrow> error + score option" where
  "terminalScore board color rights enPassant isMaximizing =
     (let sideToMove = (if isMaximizing then color else opponentOf color)
      in case isCheckmate board sideToMove rights enPassant of
           Inl e \<Rightarrow> Inl e
         | Inr True \<Rightarrow> Inr (Some (Fin (if isMaximizing then 10000 else - 10000)))
         | Inr False \<Rightarrow>
        (case isStalemate board sideToMove rights enPassant of
           Inl e \<Rightarrow> Inl e
         | Inr True \<Rightarrow> Inr (Some (Fin 0))
         | Inr False \<Rightarrow>
             if isInsufficientMaterial board then Inr (Some (Fin 0)) else Inr None))"

section \<open>Properties\<close>

subsection \<open>Cells of the example positions\<close>

lemma initializeBoard_cells:
  "initializeBoard (6, 4) = Some (White, Pawn)" "initializeBoard (4, 4) = None"
  by code_simp+

subsection \<open>The state mutators\<close>

lemma rightsLe_update: "rightsLe (updateCastlingRights rights fromRow fromCol piece) rights"
  by (simp add: rightsLe_def updateCastlingRights_def Let_def)

lemma simulateMove_rights:
  assumes "simulateMove board move rights enPassant = Inr (newBoard, newCastling, newEnPassant)"
  shows "rightsLe newCastling rights"
proof -
  have u: "rightsLe (updateCastlingRights rights (fst (fst move)) (snd (fst move)) p) rights"
    for p by (rule rightsLe_update)
  from assms show ?thesis
    unfolding simulateMove_def Let_def
    using u by (auto split: sum.splits if_splits simp: rightsLe_def)
qed

text \<open>
  C7. Rights monotonicity: the rights \<open>updateCastlingRights\<close> returns, and the rights
  \<open>simulateMove\<close> returns (after its adjustment for a captured corner rook), have no
  right set that the input rights did not have.
\<close>

theorem castling_rights_never_regained:
  "rightsLe (updateCastlingRights rights fromRow fromCol piece) rights \<and>
   (simulateMove board move rights enPassant = Inr (newBoard, newCastling, newEnPassant)
      \<longrightarrow> rightsLe newCastling rights)"
  using rightsLe_update simulateMove_rights by blast

theorem castling_rights_never_regained_witness:
  "rightsLe (updateCastlingRights allRights 7 7 (Some (White, Rook))) allRights \<and>
   whiteQueenside (updateCastlingRights allRights 7 7 (Some (White, Rook))) \<and>
   \<not> whiteKingside (updateCastlingRights allRights 7 7 (Some (White, Rook))) \<and>
   simulateMove initializeBoard ((6, 4), (4, 4)) allRights None
     = Inr (initializeBoard((4, 4) := Some (White, Pawn), (6, 4) := None),
            allRights, Some (5, 4)) \<and>
   rightsLe allRights allRights"
proof -
  have s: "simulateMove initializeBoard ((6, 4), (4, 4)) allRights None
     = Inr (initializeBoard((4, 4) := Some (White, Pawn), (6, 4) := None),
            allRights, Some (5, 4))"
    by (simp add: simulateMove_def readCell_def boardAfterMove_def castleRook_def
          getPieceType_def getPieceColor_def updateCastlingRights_def
          initializeBoard_cells Let_def)
  have u: "whiteQueenside (updateCastlingRights allRights 7 7 (Some (White, Rook))) \<and>
           \<not> whiteKingside (updateCastlingRights allRights 7 7 (Some (White, Rook)))"
    by (simp add: updateCastlingRights_def getPieceType_def getPieceColor_def
          allRights_def Let_def)
  show ?thesis
    using castling_rights_never_regained [of allRights 7 7 "Some (White, Rook)"
        initializeBoard "((6, 4), (4, 4))" None
        "initializeBoard((4, 4) := Some (White, Pawn), (6, 4) := None)" allRights
        "Some (5, 4)"]
      s u by simp
qed

text \<open>
  C8. En-passant window: \<open>updateEnPassantSquare\<close> returns a square exactly when the
  moved piece is a pawn and the rows differ by two, and that square is the skipped one
  (its row is the mean of the two rows, its column the destination's); in every other
  case it returns none.
\<close>

theorem updateEnPassantSquare_window:
  "(updateEnPassantSquare fromRow toRow toCol piece = Some sq \<longleftrightarrow>
      getPieceType piece = Some Pawn \<and> \<bar>toRow - fromRow\<bar> = 2 \<and>
      2 * fst sq = fromRow + toRow \<and> snd sq = toCol) \<and>
   (updateEnPassantSquare fromRow toRow toCol piece = None \<longleftrightarrow>
      \<not> (getPieceType piece = Some Pawn \<and> \<bar>toRow - fromRow\<bar> = 2))"
  unfolding updateEnPassantSquare_def Let_def
  by (cases sq) (auto; presburger)

subsection \<open>The legal move filter\<close>

lemma findKing_Some:
  assumes "findKing board color = Some kingPos"
  shows "board kingPos = Some (color, King) \<and> kingPos \<in> set allSquares"
  using assms unfolding findKing_def by (auto simp: find_Some_iff)

lemma findKing_None_iff:
  "findKing board color = None \<longleftrightarrow> (\<forall>sq \<in> set allSquares. board sq \<noteq> Some (color, King))"
  unfolding findKing_def by (auto simp: find_None_iff)

lemma allSquares_iff: "(r, c) \<in> set allSquares \<longleftrightarrow> isValidCoord r c"
  unfolding allSquares_def isValidCoord_def by (auto simp: image_iff)

lemma filterLegal_sound:
  assumes "filterLegal board row col color rights enPassant cands = Inr legal"
    and "dest \<in> set legal"
  shows "dest \<in> set cands \<and>
         wouldLeaveKingInCheck board row col (fst dest) (snd dest) color rights enPassant
           = Inr False"
  using assms
proof (induction cands arbitrary: legal)
  case Nil
  then show ?case by simp
next
  case (Cons d ds)
  then show ?case
    by (auto split: sum.splits if_splits)
qed

text \<open>
  C1. Self-check safety: every destination \<open>getLegalMoves\<close> returns, applied from the
  square as the simulation applies it (en-passant removal and castling rook relocation
  included), yields a board on which \<open>findKing\<close> finds the mover's king and
  \<open>isSquareAttacked\<close> is false on its square.
\<close>

theorem legal_moves_leave_king_safe:
  assumes "getLegalMoves board row col rights enPassant color = Inr legal"
    and "(toRow, toCol) \<in> set legal"
  shows "\<exists>testBoard kingPos.
           boardAfterMove board row col toRow toCol enPassant = Inr testBoard \<and>
           findKing testBoard color = Some kingPos \<and>
           testBoard kingPos = Some (color, King) \<and>
           \<not> isSquareAttacked testBoard (fst kingPos) (snd kingPos) color"
proof -
  from assms obtain cands where
    f: "filterLegal board row col color rights enPassant cands = Inr legal"
    unfolding getLegalMoves_def Let_def
    by (auto split: sum.splits if_splits)
  from filterLegal_sound [OF f assms(2)]
  have w: "wouldLeaveKingInCheck board row col toRow toCol color rights enPassant = Inr False"
    by simp
  then obtain testBoard kingPos where
    b: "boardAfterMove board row col toRow toCol enPassant = Inr testBoard"
    and k: "findKing testBoard color = Some kingPos"
    and a: "\<not> isSquareAttacked testBoard (fst kingPos) (snd kingPos) color"
    unfolding wouldLeaveKingInCheck_def
    by (auto split: sum.splits option.splits)
  from findKing_Some [OF k] b k a show ?thesis by blast
qed

lemma pawnPushed_board:
  "boardAfterMove initializeBoard 6 4 4 4 None
     = Inr (initializeBoard((4, 4) := Some (White, Pawn), (6, 4) := None))"
  by (simp add: readCell_def boardAfterMove_def castleRook_def
        getPieceType_def getPieceColor_def initializeBoard_cells)

theorem legal_moves_leave_king_safe_witness:
  "getLegalMoves initializeBoard 6 4 allRights None White = Inr [(5, 4), (4, 4)] \<and>
   boardAfterMove initializeBoard 6 4 4 4 None
     = Inr (initializeBoard((4, 4) := Some (White, Pawn), (6, 4) := None)) \<and>
   findKing (initializeBoard((4, 4) := Some (White, Pawn), (6, 4) := None)) White
     = Some (7, 4) \<and>
   \<not> isSquareAttacked (initializeBoard((4, 4) := Some (White, Pawn), (6, 4) := None))
         7 4 White"
proof -
  have g: "getLegalMoves initializeBoard 6 4 allRights None White = Inr [(5, 4), (4, 4)]"
    by code_simp
  have k: "findKing (initializeBoard((4, 4) := Some (White, Pawn), (6, 4) := None)) White
     = Some (7, 4)"
    by code_simp
  from legal_moves_leave_king_safe [OF g, of 4 4] pawnPushed_board k g
  show ?thesis by auto
qed

subsection \<open>Castling candidates\<close>

text \<open>
  C6. The code at the failing input: with the white king on row 7, column 3 and the
  kingside right set, \<open>getCastlingMoves\<close> yields the kingside destination, and
  \<open>getLegalMoves\<close> returns it among the king's legal destinations.
\<close>

theorem castling_offered_off_home_square:
  "kingOffHome (7, 3) = Some (White, King) \<and>
   getCastlingMoves kingOffHome 7 3 White allRights = [(7, 6)] \<and>
   getLegalMoves kingOffHome 7 3 allRights None White
     = Inr [(6, 2), (6, 3), (6, 4), (7, 2), (7, 4), (7, 6)]"
  by code_simp

subsection \<open>Coordinates off the board\<close>

lemma getPieceAt_off_board: "\<not> isValidCoord row col \<Longrightarrow> getPieceAt board row col = Inr None"
  by (simp add: getPieceAt_def)

lemma getPseudoLegalMoves_col_off:
  "0 \<le> row \<Longrightarrow> row < 8 \<Longrightarrow> \<not> (0 \<le> col \<and> col < 8)
     \<Longrightarrow> getPseudoLegalMoves board row col = Inr []"
  by (auto simp: getPseudoLegalMoves_def readCell_def)

lemma getPseudoLegalMoves_row_off:
  "\<not> (0 \<le> row \<and> row < 8) \<Longrightarrow> getPseudoLegalMoves board row col = Inl TypeError"
  by (auto simp: getPseudoLegalMoves_def readCell_def)

lemma getLegalMoves_col_off:
  "0 \<le> row \<Longrightarrow> row < 8 \<Longrightarrow> \<not> (0 \<le> col \<and> col < 8)
     \<Longrightarrow> getLegalMoves board row col rights enPassant color = Inr []"
  by (auto simp: getLegalMoves_def readCell_def)

lemma getLegalMoves_row_off:
  "\<not> (0 \<le> row \<and> row < 8)
     \<Longrightarrow> getLegalMoves board row col rights enPassant color = Inl TypeError"
  by (auto simp: getLegalMoves_def readCell_def)

text \<open>
  C9 as stated fails: with a row off the board both move queries raise.
\<close>

theorem off_board_row_raises:
  "\<not> isValidCoord 8 0 \<and>
   getLegalMoves initializeBoard 8 0 allRights None White = Inl TypeError \<and>
   getPseudoLegalMoves initializeBoard 8 0 = Inl TypeError"
  by (simp add: isValidCoord_def getLegalMoves_def getPseudoLegalMoves_def readCell_def)

text \<open>
  C9, as the code has it. \<open>getPieceAt\<close> returns none for every coordinate off the
  board. \<open>getLegalMoves\<close> and \<open>getPseudoLegalMoves\<close> return the empty list when the
  row is on the board and the column is not, and raise when the row is off the board.
\<close>

theorem off_board_coordinates:
  "(\<not> isValidCoord row col \<longrightarrow> getPieceAt board row col = Inr None) \<and>
   (0 \<le> row \<and> row < 8 \<and> \<not> (0 \<le> col \<and> col < 8) \<longrightarrow>
      getLegalMoves board row col rights enPassant color = Inr [] \<and>
      getPseudoLegalMoves board row col = Inr []) \<and>
   (\<not> (0 \<le> row \<and> row < 8) \<longrightarrow>
      getLegalMoves board row col rights enPassant color = Inl TypeError \<and>
      getPseudoLegalMoves board row col = Inl TypeError)"
  using getLegalMoves_col_off [of row col board rights enPassant color]
    getLegalMoves_row_off [of row board col rights enPassant color]
    getPseudoLegalMoves_col_off [of row col board]
    getPseudoLegalMoves_row_off [of row board col]
    getPieceAt_off_board [of row col board]
  by blast

theorem off_board_coordinates_witness:
  "\<not> isValidCoord 3 9 \<and> getPieceAt initializeBoard 3 9 = Inr None \<and>
   getLegalMoves initializeBoard 3 9 allRights None White = Inr [] \<and>
   getPseudoLegalMoves initializeBoard 3 9 = Inr [] \<and>
   \<not> isValidCoord (- 1) 4 \<and> getPieceAt initializeBoard (- 1) 4 = Inr None \<and>
   getLegalMoves initializeBoard (- 1) 4 allRights None White = Inl TypeError \<and>
   getPseudoLegalMoves initializeBoard (- 1) 4 = Inl TypeError"
  using off_board_coordinates [of 3 9 initializeBoard allRights None White]
    off_board_coordinates [of "- 1" 4 initializeBoard allRights None White]
  by (simp add: isValidCoord_def)

subsection \<open>Terminal scores of the search\<close>

lemma blackMated_checkmate: "isCheckmate blackMated Black noRights None = Inr True"
  by code_simp

lemma whiteMated_checkmate: "isCheckmate whiteMated White noRights None = Inr True"
  by code_simp

text \<open>
  C5. The code at the failing inputs. At a maximizing node whose side to move (the
  searching colour, black) is checkmated, both searches return \<open>+10000\<close>; at a
  minimizing node whose side to move (the opponent, white) is checkmated, both return
  \<open>-10000\<close>. The depth and the window do not matter.
\<close>

theorem checkmate_score_sign:
  "isCheckmate blackMated Black noRights None = Inr True \<and>
   minimaxSearch blackMated Black noRights None depth True = Inr (Fin 10000) \<and>
   minimaxSearchAlphaBeta blackMated Black noRights None depth alpha beta True
     = Inr (Fin 10000) \<and>
   isCheckmate whiteMated White noRights None = Inr True \<and>
   minimaxSearch whiteMated Black noRights None depth False = Inr (Fin (- 10000)) \<and>
   minimaxSearchAlphaBeta whiteMated Black noRights None depth alpha beta False
     = Inr (Fin (- 10000))"
  by (simp add: minimaxSearch.simps minimaxSearchAlphaBeta.simps opponentOf_def
        blackMated_checkmate whiteMated_checkmate)

subsection \<open>The root searches\<close>

lemma minimaxLoop_constant:
  assumes "minimaxLoop isMaximizing (\<lambda>move. s) moves bestMove bestValue = Inr m"
    and "bestValue = (if isMaximizing then NegInf else PosInf) \<or> s = Inr bestValue"
  shows "m = (if bestValue = (if isMaximizing then NegInf else PosInf) \<and> s \<noteq> Inr bestValue
              \<and> moves \<noteq> [] then hd moves else bestMove)"
  using assms
proof (induction moves arbitrary: bestMove bestValue)
  case Nil
  then show ?case by simp
next
  case (Cons a moves)
  show ?case
  proof (cases s)
    case (Inl e)
    with Cons.prems show ?thesis by simp
  next
    case (Inr v)
    show ?thesis
    proof (cases "v = bestValue")
      case True
      with Cons.prems Inr
      have "minimaxLoop isMaximizing (\<lambda>move. s) moves bestMove bestValue = Inr m"
        by simp
      from Cons.IH [OF this] True Inr show ?thesis by simp
    next
      case False
      with Cons.prems(2) Inr
      have bv: "bestValue = (if isMaximizing then NegInf else PosInf)" by auto
      have better: "if isMaximizing then v > bestValue else v < bestValue"
        using bv False by (cases v; cases isMaximizing) (auto simp: less_score_def)
      with Cons.prems(1) Inr
      have "minimaxLoop isMaximizing (\<lambda>move. s) moves a v = Inr m"
        by (cases isMaximizing) (auto split: if_splits)
      from Cons.IH [OF this] Inr have "m = a" by simp
      with bv False Inr show ?thesis by simp
    qed
  qed
qed

lemma minimax_returns_first_move:
  assumes "minimax board color rights enPassant depth isMaximizing = Inr (Some m)"
  shows "\<exists>rest. getAllLegalMoves board color rights enPassant = Inr (m # rest)"
proof -
  from assms obtain m0 rest where
    g: "getAllLegalMoves board color rights enPassant = Inr (m0 # rest)"
    and l: "minimaxLoop isMaximizing
              (\<lambda>move. minimaxSearch board color rights enPassant (depth - 1) (\<not> isMaximizing))
              (m0 # rest) m0 (if isMaximizing then NegInf else PosInf) = Inr m"
    unfolding minimax_def
    by (auto split: if_splits sum.splits list.splits)
  from minimaxLoop_constant [OF l] have "m = m0" by (simp split: if_splits)
  with g show ?thesis by simp
qed

text \<open>
  C2. The code at the failing input. With black to move on \<open>hangingQueen\<close> and depth
  1, both root searches return the first legal move, the king's step, whose score (the
  move simulated, the search run one ply down on the result) is \<open>-21/10\<close>, although
  taking the queen is among the legal moves and scores \<open>27/5\<close>.
\<close>

theorem root_search_returns_first_move:
  "minimax hangingQueen Black noRights None 1 True = Inr (Some ((0, 0), (0, 1))) \<and>
   minimaxAlphaBeta hangingQueen Black noRights None 1 NegInf PosInf True
     = Inr (Some ((0, 0), (0, 1))) \<and>
   getAllLegalMoves hangingQueen Black noRights None
     = Inr [((0, 0), (0, 1)), ((0, 0), (1, 0)), ((0, 0), (1, 1)), ((3, 3), (3, 4)),
            ((3, 3), (3, 5)), ((3, 3), (3, 2)), ((3, 3), (3, 1)), ((3, 3), (3, 0)),
            ((3, 3), (4, 3)), ((3, 3), (5, 3)), ((3, 3), (6, 3)), ((3, 3), (7, 3)),
            ((3, 3), (2, 3)), ((3, 3), (1, 3)), ((3, 3), (0, 3))] \<and>
   candidateScore hangingQueen Black noRights None 1 True ((0, 0), (0, 1))
     = Inr (Fin (- (21 / 10))) \<and>
   candidateScore hangingQueen Black noRights None 1 True ((3, 3), (3, 5))
     = Inr (Fin (27 / 5)) \<and>
   Fin (- (21 / 10)) < Fin (27 / 5)"
  by code_simp

text \<open>
  The simplification procedure that rewrites \<open>set\<close> of a list expression into a set
  comprehension fails on the nested case expressions of the move generators; the proofs
  below do without it.
\<close>

declare TrueI [simproc del: list_to_set_comprehension]

subsection \<open>Destinations lie on the board\<close>

lemma slideRay_valid:
  "d \<in> set (slideRay board row col color dr dc dsts) \<Longrightarrow> isValidCoord (fst d) (snd d)"
  by (induction dsts) (auto simp: Let_def split: if_splits option.splits)

lemma slideMoves_valid:
  "d \<in> set (slideMoves board row col color dirs) \<Longrightarrow> isValidCoord (fst d) (snd d)"
  unfolding slideMoves_def by (auto dest: slideRay_valid)

lemma stepMoves_valid:
  "d \<in> set (stepMoves board row col color offsets) \<Longrightarrow> isValidCoord (fst d) (snd d)"
  unfolding stepMoves_def by (cases d) auto

lemma getPawnMoves_valid:
  assumes "d \<in> set (getPawnMoves board row col color)"
  shows "isValidCoord (fst d) (snd d)"
proof -
  define direction where "direction = (if color = White then - 1 else (1::int))"
  define startRow where "startRow = (if color = White then 6 else (1::int))"
  have two: "isValidCoord (row + 2 * direction) col"
    if "isValidCoord (row + direction) col" "row = startRow"
    using that by (auto simp: isValidCoord_def direction_def startRow_def split: if_splits)
  from assms show ?thesis
    unfolding getPawnMoves_def Let_def direction_def [symmetric] startRow_def [symmetric]
    using two by (auto split: if_splits option.splits)
qed

lemma getPseudoLegalMoves_valid:
  assumes "getPseudoLegalMoves board row col = Inr moves" and "d \<in> set moves"
  shows "isValidCoord (fst d) (snd d)"
  using assms unfolding getPseudoLegalMoves_def Let_def
    getKnightMoves_def getKingMoves_def getBishopMoves_def getRookMoves_def getQueenMoves_def
  by (auto split: sum.splits option.splits ptype.splits
        dest: getPawnMoves_valid stepMoves_valid slideMoves_valid)

lemma getCastlingMoves_valid:
  "d \<in> set (getCastlingMoves board row col color rights) \<Longrightarrow> isValidCoord (fst d) (snd d)"
  unfolding getCastlingMoves_def Let_def
  by (auto simp: isValidCoord_def split: if_splits)

lemma getEnPassantMoves_row:
  assumes "d \<in> set (getEnPassantMoves board row col color enPassant)"
    and "enPassantRowOnBoard enPassant"
  shows "0 \<le> fst d \<and> fst d < 8"
  using assms unfolding getEnPassantMoves_def enPassantRowOnBoard_def Let_def
  by (auto split: option.splits if_splits)

subsection \<open>When the simulation and the filter return\<close>

lemma boardAfterMove_Inr_iff:
  "(\<exists>tb. boardAfterMove board fromRow fromCol toRow toCol enPassant = Inr tb) \<longleftrightarrow>
     (0 \<le> fromRow \<and> fromRow < 8 \<and> 0 \<le> toRow \<and> toRow < 8)"
  unfolding boardAfterMove_def readCell_def Let_def by auto

lemma wouldLeaveKingInCheck_Inr_iff:
  "(\<exists>x. wouldLeaveKingInCheck board fromRow fromCol toRow toCol color rights enPassant = Inr x)
     \<longleftrightarrow> (0 \<le> fromRow \<and> fromRow < 8 \<and> 0 \<le> toRow \<and> toRow < 8)"
proof -
  have "(\<exists>x. wouldLeaveKingInCheck board fromRow fromCol toRow toCol color rights enPassant = Inr x)
     \<longleftrightarrow> (\<exists>tb. boardAfterMove board fromRow fromCol toRow toCol enPassant = Inr tb)"
    unfolding wouldLeaveKingInCheck_def by (auto split: sum.splits option.splits)
  then show ?thesis by (simp add: boardAfterMove_Inr_iff)
qed

lemma filterLegal_returns:
  assumes "0 \<le> row" "row < 8" "\<forall>d \<in> set cands. 0 \<le> fst d \<and> fst d < 8"
  shows "\<exists>legal. filterLegal board row col color rights enPassant cands = Inr legal"
  using assms(3)
proof (induction cands)
  case Nil
  then show ?case by simp
next
  case (Cons d ds)
  then obtain legal where l: "filterLegal board row col color rights enPassant ds = Inr legal"
    by auto
  from Cons.prems assms(1,2) obtain x where
    "wouldLeaveKingInCheck board row col (fst d) (snd d) color rights enPassant = Inr x"
    using wouldLeaveKingInCheck_Inr_iff [of board row col "fst d" "snd d" color rights enPassant]
    by auto
  with l show ?case by simp
qed

lemma filterLegal_rows:
  assumes "filterLegal board row col color rights enPassant cands = Inr legal"
    and "d \<in> set legal"
  shows "0 \<le> row \<and> row < 8 \<and> 0 \<le> fst d \<and> fst d < 8"
proof -
  from filterLegal_sound [OF assms]
  have "wouldLeaveKingInCheck board row col (fst d) (snd d) color rights enPassant = Inr False"
    by simp
  with wouldLeaveKingInCheck_Inr_iff [of board row col "fst d" "snd d" color rights enPassant]
  show ?thesis by blast
qed

lemma legal_candidates_rows:
  assumes "getPseudoLegalMoves board row col = Inr pseudoLegal"
    and "enPassantRowOnBoard enPassant"
    and "d \<in> set (pseudoLegal @ (if t = Some King then getCastlingMoves board row col color rights else [])
            @ (if t = Some Pawn then getEnPassantMoves board row col color enPassant else []))"
  shows "0 \<le> fst d \<and> fst d < 8"
  using assms getPseudoLegalMoves_valid [OF assms(1), of d]
    getCastlingMoves_valid [of d board row col color rights]
    getEnPassantMoves_row [of d board row col color enPassant]
  by (auto simp: isValidCoord_def split: if_splits)

lemma getLegalMoves_returns:
  assumes "0 \<le> row" "row < 8" "enPassantRowOnBoard enPassant"
  shows "\<exists>legal. getLegalMoves board row col rights enPassant color = Inr legal"
proof -
  from assms(1,2) obtain piece where r: "readCell board row col = Inr piece"
    by (simp add: readCell_def)
  show ?thesis
  proof (cases "piece = None \<or> getPieceColor piece \<noteq> Some color")
    case True
    with r show ?thesis by (auto simp: getLegalMoves_def)
  next
    case False
    from r obtain pseudoLegal where
      p: "getPseudoLegalMoves board row col = Inr pseudoLegal"
      by (cases piece) (auto simp: getPseudoLegalMoves_def Let_def)
    let ?cands = "pseudoLegal @
        (if getPieceType piece = Some King then getCastlingMoves board row col color rights else [])
        @ (if getPieceType piece = Some Pawn
           then getEnPassantMoves board row col color enPassant else [])"
    have "\<forall>d \<in> set ?cands. 0 \<le> fst d \<and> fst d < 8"
      using legal_candidates_rows [OF p assms(3)] by blast
    from filterLegal_returns [OF assms(1,2) this]
    obtain legal where "filterLegal board row col color rights enPassant ?cands = Inr legal"
      by blast
    with r p False show ?thesis
      by (simp add: getLegalMoves_def Let_def)
  qed
qed

lemma getLegalMoves_rows:
  assumes "getLegalMoves board row col rights enPassant color = Inr legal"
    and "d \<in> set legal"
  shows "0 \<le> row \<and> row < 8 \<and> 0 \<le> fst d \<and> fst d < 8"
proof -
  from assms obtain cands where
    f: "filterLegal board row col color rights enPassant cands = Inr legal"
    unfolding getLegalMoves_def Let_def
    by (auto split: sum.splits if_splits)
  from filterLegal_rows [OF f assms(2)] show ?thesis .
qed

lemma getPiecesOfColor_iff:
  "(piece, r, c) \<in> set (getPiecesOfColor board color) \<longleftrightarrow>
     isValidCoord r c \<and> board (r, c) = Some piece \<and> fst piece = color"
proof -
  have one: "(piece, r, c) \<in> set (case board (row, col) of None \<Rightarrow> []
               | Some pc \<Rightarrow> if fst pc = color then [(pc, row, col)] else []) \<longleftrightarrow>
             (row = r \<and> col = c \<and> board (r, c) = Some piece \<and> fst piece = color)"
    for row col
    by (cases "board (row, col)") auto
  have "(piece, r, c) \<in> set (getPiecesOfColor board color) \<longleftrightarrow>
          (\<exists>sq \<in> set allSquares. (piece, r, c) \<in> set (case board (fst sq, snd sq) of None \<Rightarrow> []
               | Some pc \<Rightarrow> if fst pc = color then [(pc, fst sq, snd sq)] else []))"
    unfolding getPiecesOfColor_def by (auto simp: case_prod_beta)
  also have "\<dots> \<longleftrightarrow> (\<exists>sq \<in> set allSquares. fst sq = r \<and> snd sq = c \<and>
                 board (r, c) = Some piece \<and> fst piece = color)"
    by (simp only: one)
  also have "\<dots> \<longleftrightarrow> isValidCoord r c \<and> board (r, c) = Some piece \<and> fst piece = color"
    using allSquares_iff [of r c] by (auto intro: bexI [of _ "(r, c)"])
  finally show ?thesis .
qed

lemma getPiecesOfColor_valid:
  assumes "p \<in> set (getPiecesOfColor board color)"
  shows "isValidCoord (fst (snd p)) (snd (snd p)) \<and>
         board (fst (snd p), snd (snd p)) = Some (fst p) \<and> fst (fst p) = color"
  using assms getPiecesOfColor_iff [of "fst p" "fst (snd p)" "snd (snd p)" board color]
  by simp

lemma noPieceCanMove_returns:
  assumes "enPassantRowOnBoard enPassant"
    and "\<forall>p \<in> set pieces. 0 \<le> fst (snd p) \<and> fst (snd p) < 8"
  shows "\<exists>x. noPieceCanMove board color rights enPassant pieces = Inr x"
  using assms(2)
proof (induction pieces)
  case Nil
  then show ?case by auto
next
  case (Cons p ps)
  then obtain legal where
    "getLegalMoves board (fst (snd p)) (snd (snd p)) rights enPassant color = Inr legal"
    using getLegalMoves_returns [OF _ _ assms(1), of "fst (snd p)" board "snd (snd p)" rights color]
    by auto
  moreover from Cons obtain x where "noPieceCanMove board color rights enPassant ps = Inr x"
    by auto
  ultimately show ?case by (cases "legal = []") auto
qed

lemma pieces_rows:
  "\<forall>p \<in> set (getPiecesOfColor board color). 0 \<le> fst (snd p) \<and> fst (snd p) < 8"
  using getPiecesOfColor_valid [of _ board color] by (auto simp: isValidCoord_def)

lemma isCheckmate_returns:
  "enPassantRowOnBoard enPassant \<Longrightarrow> \<exists>x. isCheckmate board color rights enPassant = Inr x"
  unfolding isCheckmate_def using noPieceCanMove_returns [OF _ pieces_rows] by auto

lemma isStalemate_returns:
  "enPassantRowOnBoard enPassant \<Longrightarrow> \<exists>x. isStalemate board color rights enPassant = Inr x"
  unfolding isStalemate_def using noPieceCanMove_returns [OF _ pieces_rows] by auto


subsection \<open>A side without a king\<close>

lemma hasNoKing_iff:
  "hasNoKing board color \<longleftrightarrow> (\<forall>r c. isValidCoord r c \<longrightarrow> board (r, c) \<noteq> Some (color, King))"
  unfolding hasNoKing_def using allSquares_iff by auto

lemma hasNoKing_findKing: "hasNoKing board color \<longleftrightarrow> findKing board color = None"
  by (simp add: hasNoKing_def findKing_None_iff)

lemma hasNoKing_upd:
  "hasNoKing board color \<Longrightarrow> v \<noteq> Some (color, King) \<Longrightarrow> hasNoKing (board(sq := v)) color"
  by (simp add: hasNoKing_def)

lemma hasNoKing_cell:
  "hasNoKing board color \<Longrightarrow> isValidCoord r c \<Longrightarrow> board (r, c) \<noteq> Some (color, King)"
  by (simp add: hasNoKing_iff)

lemma castleRook_hasNoKing:
  assumes "hasNoKing tb color"
  shows "hasNoKing (castleRook tb piece fromRow fromCol toCol) color"
proof -
  have c: "tb (7, 7) \<noteq> Some (color, King)" "tb (7, 0) \<noteq> Some (color, King)"
    "tb (0, 7) \<noteq> Some (color, King)" "tb (0, 0) \<noteq> Some (color, King)"
    using assms by (simp_all add: hasNoKing_iff isValidCoord_def)
  have None: "None \<noteq> Some (color, King)" by simp
  show ?thesis
    unfolding castleRook_def Let_def
    by (auto intro!: hasNoKing_upd assms c simp: None)
qed

lemma boardAfterMove_hasNoKing:
  assumes nk: "hasNoKing board color"
    and b: "boardAfterMove board fromRow fromCol toRow toCol enPassant = Inr tb"
  shows "hasNoKing tb color"
proof -
  from b obtain piece where r: "readCell board fromRow fromCol = Inr piece"
    unfolding boardAfterMove_def by (auto split: sum.splits)
  have p: "piece \<noteq> Some (color, King)"
    using r nk by (auto simp: readCell_def hasNoKing_iff isValidCoord_def split: if_splits)
  have n: "None \<noteq> Some (color, King)" by simp
  let ?tb0 = "if getPieceType piece = Some Pawn \<and> enPassant = Some (toRow, toCol)
              then board((toRow, toCol) := piece, (fromRow, fromCol) := None,
                         (fromRow, toCol) := None)
              else board((toRow, toCol) := piece, (fromRow, fromCol) := None)"
  have "hasNoKing ?tb0 color"
    using nk p by (auto intro!: hasNoKing_upd)
  from castleRook_hasNoKing [OF this]
  have "hasNoKing (castleRook ?tb0 piece fromRow fromCol toCol) color" .
  moreover from b r have "tb = castleRook ?tb0 piece fromRow fromCol toCol"
    unfolding boardAfterMove_def Let_def by (auto split: if_splits)
  ultimately show ?thesis by simp
qed

lemma wouldLeaveKingInCheck_hasNoKing:
  assumes "hasNoKing board color"
    and "0 \<le> fromRow" "fromRow < 8" "0 \<le> toRow" "toRow < 8"
  shows "wouldLeaveKingInCheck board fromRow fromCol toRow toCol color rights enPassant
           = Inr True"
proof -
  from assms(2-5) obtain tb where
    b: "boardAfterMove board fromRow fromCol toRow toCol enPassant = Inr tb"
    using boardAfterMove_Inr_iff [of board fromRow fromCol toRow toCol enPassant] by blast
  from boardAfterMove_hasNoKing [OF assms(1) b] have "findKing tb color = None"
    by (simp add: hasNoKing_findKing)
  with b show ?thesis by (simp add: wouldLeaveKingInCheck_def)
qed

lemma filterLegal_hasNoKing:
  assumes "hasNoKing board color" "0 \<le> row" "row < 8"
    and "\<forall>d \<in> set cands. 0 \<le> fst d \<and> fst d < 8"
  shows "filterLegal board row col color rights enPassant cands = Inr []"
  using assms(4)
proof (induction cands)
  case Nil
  then show ?case by simp
next
  case (Cons d ds)
  then have "wouldLeaveKingInCheck board row col (fst d) (snd d) color rights enPassant
               = Inr True"
    using wouldLeaveKingInCheck_hasNoKing [OF assms(1-3), of "fst d"] by simp
  with Cons show ?case by simp
qed

lemma getLegalMoves_hasNoKing:
  assumes "hasNoKing board color" "0 \<le> row" "row < 8" "enPassantRowOnBoard enPassant"
  shows "getLegalMoves board row col rights enPassant color = Inr []"
proof -
  from assms(2,3) obtain piece where r: "readCell board row col = Inr piece"
    by (simp add: readCell_def)
  show ?thesis
  proof (cases "piece = None \<or> getPieceColor piece \<noteq> Some color")
    case True
    with r show ?thesis by (auto simp: getLegalMoves_def)
  next
    case False
    from r obtain pseudoLegal where
      p: "getPseudoLegalMoves board row col = Inr pseudoLegal"
      by (cases piece) (auto simp: getPseudoLegalMoves_def Let_def)
    let ?cands = "pseudoLegal @
        (if getPieceType piece = Some King then getCastlingMoves board row col color rights else [])
        @ (if getPieceType piece = Some Pawn
           then getEnPassantMoves board row col color enPassant else [])"
    have "\<forall>d \<in> set ?cands. 0 \<le> fst d \<and> fst d < 8"
      using legal_candidates_rows [OF p assms(4)] by blast
    from filterLegal_hasNoKing [OF assms(1-3) this]
    have "filterLegal board row col color rights enPassant ?cands = Inr []" .
    with r p False show ?thesis
      by (simp add: getLegalMoves_def Let_def)
  qed
qed

lemma noPieceCanMove_hasNoKing:
  assumes "hasNoKing board color" "enPassantRowOnBoard enPassant"
    and "\<forall>p \<in> set pieces. 0 \<le> fst (snd p) \<and> fst (snd p) < 8"
  shows "noPieceCanMove board color rights enPassant pieces = Inr True"
  using assms(3)
proof (induction pieces)
  case Nil
  then show ?case by simp
next
  case (Cons p ps)
  then have "getLegalMoves board (fst (snd p)) (snd (snd p)) rights enPassant color = Inr []"
    using getLegalMoves_hasNoKing [OF assms(1) _ _ assms(2), of "fst (snd p)"] by simp
  with Cons show ?case by simp
qed

lemma getLegalMoves_hasNoKing_returned:
  assumes "hasNoKing board color"
    and "getLegalMoves board row col rights enPassant color = Inr legal"
  shows "legal = []"
proof (rule ccontr)
  assume "legal \<noteq> []"
  then obtain d where d: "d \<in> set legal" by (cases legal) auto
  from assms(2) d obtain cands where
    f: "filterLegal board row col color rights enPassant cands = Inr legal"
    unfolding getLegalMoves_def Let_def
    by (auto split: sum.splits if_splits)
  from filterLegal_sound [OF f d]
  have w: "wouldLeaveKingInCheck board row col (fst d) (snd d) color rights enPassant
             = Inr False" by simp
  from filterLegal_rows [OF f d]
  have "0 \<le> row" "row < 8" "0 \<le> fst d" "fst d < 8" by simp_all
  from wouldLeaveKingInCheck_hasNoKing [OF assms(1) this] w show False by simp
qed

lemma noPieceCanMove_hasNoKing_returned:
  assumes "hasNoKing board color"
  shows "noPieceCanMove board color rights enPassant pieces \<noteq> Inr False"
proof (induction pieces)
  case Nil
  then show ?case by simp
next
  case (Cons p ps)
  show ?case
  proof (cases "getLegalMoves board (fst (snd p)) (snd (snd p)) rights enPassant color")
    case (Inl e)
    then show ?thesis by simp
  next
    case (Inr legal)
    with getLegalMoves_hasNoKing_returned [OF assms Inr] Cons show ?thesis by simp
  qed
qed

text \<open>
  C10 as stated fails: with an en-passant target on a row off the board, here
  \<open>(-1, 1)\<close> beside the white pawn on the last rank, the filter of \<open>getLegalMoves\<close>
  assigns to a row that does not exist, and \<open>getLegalMoves\<close> and \<open>isStalemate\<close> raise
  although white has no king.
\<close>

theorem kingless_stalemate_raises:
  "findKing kinglessLastRank White = None \<and>
   kinglessLastRank (0, 0) = Some (White, Pawn) \<and>
   getEnPassantMoves kinglessLastRank 0 0 White (Some (- 1, 1)) = [(- 1, 1)] \<and>
   getLegalMoves kinglessLastRank 0 0 noRights (Some (- 1, 1)) White = Inl TypeError \<and>
   isStalemate kinglessLastRank White noRights (Some (- 1, 1)) = Inl TypeError"
  by code_simp

text \<open>
  C10, as the code has it. On a board with no king of a colour, that colour is not in
  check, every simulated move between rows of the board is reported as leaving the king
  in check, the colour is not checkmated, \<open>getLegalMoves\<close> returns no destination
  whenever it returns, and \<open>isStalemate\<close> never returns false. When the en-passant
  target, if there is one, lies on a row of the board, \<open>getLegalMoves\<close> returns the
  empty list for every square on a row of the board and \<open>isStalemate\<close> returns true.
\<close>

theorem kingless_side_is_stalemated:
  assumes "hasNoKing board color"
  shows "\<not> isInCheck board color \<and>
         (\<forall>fromRow fromCol toRow toCol.
            0 \<le> fromRow \<and> fromRow < 8 \<and> 0 \<le> toRow \<and> toRow < 8 \<longrightarrow>
            wouldLeaveKingInCheck board fromRow fromCol toRow toCol color rights enPassant
              = Inr True) \<and>
         isCheckmate board color rights enPassant = Inr False \<and>
         (\<forall>row col legal. getLegalMoves board row col rights enPassant color = Inr legal
            \<longrightarrow> legal = []) \<and>
         isStalemate board color rights enPassant \<noteq> Inr False \<and>
         (enPassantRowOnBoard enPassant \<longrightarrow>
            (\<forall>row col. 0 \<le> row \<and> row < 8 \<longrightarrow>
               getLegalMoves board row col rights enPassant color = Inr []) \<and>
            isStalemate board color rights enPassant = Inr True)"
proof -
  have k: "findKing board color = None"
    using assms by (simp add: hasNoKing_findKing)
  then have c: "\<not> isInCheck board color" by (simp add: isInCheck_def)
  then have m: "isCheckmate board color rights enPassant = Inr False"
    by (simp add: isCheckmate_def)
  have s: "isStalemate board color rights enPassant \<noteq> Inr False"
    using c noPieceCanMove_hasNoKing_returned [OF assms]
    by (simp add: isStalemate_def)
  have t: "isStalemate board color rights enPassant = Inr True"
    if "enPassantRowOnBoard enPassant"
    using c noPieceCanMove_hasNoKing [OF assms that pieces_rows]
    by (simp add: isStalemate_def)
  have g: "getLegalMoves board row col rights enPassant color = Inr []"
    if "enPassantRowOnBoard enPassant" "0 \<le> row \<and> row < 8" for row col
    using getLegalMoves_hasNoKing [OF assms _ _ that(1)] that(2) by simp
  from c m s t g wouldLeaveKingInCheck_hasNoKing [OF assms]
    getLegalMoves_hasNoKing_returned [OF assms]
  show ?thesis by blast
qed

theorem kingless_side_is_stalemated_witness:
  "hasNoKing kinglessEnPassant White \<and> enPassantRowOnBoard (Some (2, 3)) \<and>
   kinglessEnPassant (3, 2) = Some (White, Pawn) \<and>
   getPseudoLegalMoves kinglessEnPassant 3 2 = Inr [(2, 2)] \<and>
   getEnPassantMoves kinglessEnPassant 3 2 White (Some (2, 3)) = [(2, 3)] \<and>
   \<not> isInCheck kinglessEnPassant White \<and>
   wouldLeaveKingInCheck kinglessEnPassant 3 2 2 3 White allRights (Some (2, 3)) = Inr True \<and>
   getLegalMoves kinglessEnPassant 3 2 allRights (Some (2, 3)) White = Inr [] \<and>
   isCheckmate kinglessEnPassant White allRights (Some (2, 3)) = Inr False \<and>
   isStalemate kinglessEnPassant White allRights (Some (2, 3)) = Inr True"
proof -
  have h: "hasNoKing kinglessEnPassant White"
    unfolding hasNoKing_findKing by code_simp
  have e: "enPassantRowOnBoard (Some (2, 3))" by (simp add: enPassantRowOnBoard_def)
  have p: "kinglessEnPassant (3, 2) = Some (White, Pawn)" by code_simp
  have q: "getPseudoLegalMoves kinglessEnPassant 3 2 = Inr [(2, 2)]" by code_simp
  have n: "getEnPassantMoves kinglessEnPassant 3 2 White (Some (2, 3)) = [(2, 3)]"
    by code_simp
  note t = kingless_side_is_stalemated [OF h, of allRights "Some (2, 3)"]
  from t have c: "\<not> isInCheck kinglessEnPassant White" by blast
  from t have w: "wouldLeaveKingInCheck kinglessEnPassant 3 2 2 3 White allRights
                    (Some (2, 3)) = Inr True" by simp
  from t have m: "isCheckmate kinglessEnPassant White allRights (Some (2, 3)) = Inr False"
    by blast
  from t e have g: "getLegalMoves kinglessEnPassant 3 2 allRights (Some (2, 3)) White
                      = Inr []" by simp
  from t e have s: "isStalemate kinglessEnPassant White allRights (Some (2, 3)) = Inr True"
    by blast
  from h e p q n c w m g s show ?thesis by simp
qed

subsection \<open>The attack oracle\<close>

lemma rawRay_slideRay:
  assumes "board (row, col) = Some target" "fst target \<noteq> oc"
  shows "(row, col) \<in> set (rawRay board pr pc dr dc dsts) \<longleftrightarrow>
         (row, col) \<in> set (slideRay board pr pc oc dr dc dsts)"
  using assms by (induction dsts) (auto simp: Let_def split: option.splits)

lemma rawRays_slideMoves:
  assumes "board (row, col) = Some target" "fst target \<noteq> oc"
  shows "(row, col) \<in> set (concat (map (\<lambda>(dr, dc). rawRay board pr pc dr dc [1..7]) dirs))
         \<longleftrightarrow> (row, col) \<in> set (slideMoves board pr pc oc dirs)"
  by (simp add: slideMoves_def case_prod_beta
        rawRay_slideRay [where board = board and row = row and col = col, OF assms])

lemma rawSteps_stepMoves:
  assumes "board (row, col) = Some target" "fst target \<noteq> oc"
  shows "(row, col) \<in> set (filter (\<lambda>newPos. isValidCoord (fst newPos) (snd newPos))
                           (map (\<lambda>(dr, dc). (pr + dr, pc + dc)) offsets))
         \<longleftrightarrow> (row, col) \<in> set (stepMoves board pr pc oc offsets)"
  unfolding stepMoves_def using assms by auto

lemma pawn_raw_iff:
  assumes t: "board (row, col) = Some target"
    and p: "board (pr, pc) = Some (oc, Pawn)"
  shows "(row, col) \<in> set (generatePieceMoves board pr pc Pawn) \<longleftrightarrow>
         isValidCoord row col \<and> row = pr + (if oc = White then - 1 else 1) \<and>
         \<bar>col - pc\<bar> = 1"
proof -
  define direction where "direction = (if oc = White then - 1 else (1::int))"
  define startRow where "startRow = (if oc = White then 6 else (1::int))"
  define F where "F = (if isValidCoord (pr + direction) pc \<and> board (pr + direction, pc) = None
      then (pr + direction, pc) #
        (if pr = startRow
         then (if board (pr + 2 * direction, pc) = None then [(pr + 2 * direction, pc)] else [])
         else [])
      else [])"
  define C where "C = (\<lambda>dCol. if isValidCoord (pr + direction) (pc + dCol)
      then (if board (pr + direction, pc + dCol) \<noteq> None then [(pr + direction, pc + dCol)] else [])
      else [])"
  have c: "getPieceColor (board (pr, pc)) = Some oc" by (simp add: p getPieceColor_def)
  have g: "generatePieceMoves board pr pc Pawn = F @ C (- 1) @ C 1"
    unfolding generatePieceMoves_def Let_def c F_def C_def direction_def startRow_def
    by (simp split del: if_split cong: if_cong)
  have f: "(row, col) \<notin> set F"
    using t by (auto simp: F_def split: if_splits)
  have cc: "(row, col) \<in> set (C dCol) \<longleftrightarrow>
      isValidCoord row col \<and> row = pr + direction \<and> col = pc + dCol" for dCol
    using t by (cases target) (auto simp: C_def)
  have "(row, col) \<in> set (generatePieceMoves board pr pc Pawn) \<longleftrightarrow>
      isValidCoord row col \<and> row = pr + direction \<and> (col = pc + (- 1) \<or> col = pc + 1)"
    unfolding g using f cc by auto
  also have "\<dots> \<longleftrightarrow> isValidCoord row col \<and> row = pr + direction \<and> \<bar>col - pc\<bar> = 1"
    by auto
  finally show ?thesis by (simp add: direction_def)
qed

lemma pawn_pseudo_iff:
  assumes t: "board (row, col) = Some target" "fst target \<noteq> oc"
  shows "(row, col) \<in> set (getPawnMoves board pr pc oc) \<longleftrightarrow>
         isValidCoord row col \<and> row = pr + (if oc = White then - 1 else 1) \<and>
         \<bar>col - pc\<bar> = 1"
proof -
  define direction where "direction = (if oc = White then - 1 else (1::int))"
  define startRow where "startRow = (if oc = White then 6 else (1::int))"
  define F where "F = (if isValidCoord (pr + direction) pc \<and> board (pr + direction, pc) = None
      then (pr + direction, pc) #
        (if pr = startRow
         then (if board (pr + 2 * direction, pc) = None then [(pr + 2 * direction, pc)] else [])
         else [])
      else [])"
  define C where "C = (\<lambda>dCol. if isValidCoord (pr + direction) (pc + dCol)
      then (case board (pr + direction, pc + dCol) of None \<Rightarrow> []
            | Some tg \<Rightarrow> if fst tg \<noteq> oc then [(pr + direction, pc + dCol)] else [])
      else [])"
  have g: "getPawnMoves board pr pc oc = F @ C (- 1) @ C 1"
    unfolding getPawnMoves_def Let_def F_def C_def direction_def startRow_def
    by (simp split del: if_split cong: if_cong)
  have f: "(row, col) \<notin> set F"
    using t by (auto simp: F_def split: if_splits)
  have cc: "(row, col) \<in> set (C dCol) \<longleftrightarrow>
      isValidCoord row col \<and> row = pr + direction \<and> col = pc + dCol" for dCol
    using t by (auto simp: C_def split: option.splits)
  have "(row, col) \<in> set (getPawnMoves board pr pc oc) \<longleftrightarrow>
      isValidCoord row col \<and> row = pr + direction \<and> (col = pc + (- 1) \<or> col = pc + 1)"
    unfolding g using f cc by auto
  also have "\<dots> \<longleftrightarrow> isValidCoord row col \<and> row = pr + direction \<and> \<bar>col - pc\<bar> = 1"
    by auto
  finally show ?thesis by (simp add: direction_def)
qed

lemma opponentOf_neq: "opponentOf color \<noteq> color"
  by (cases color) (simp_all add: opponentOf_def)

lemma isSquareAttacked_iff:
  "isSquareAttacked board row col color \<longleftrightarrow>
     (\<exists>p \<in> set (getPiecesOfColor board (opponentOf color)).
        (row, col) \<in> set (generatePieceMoves board (fst (snd p)) (snd (snd p)) (snd (fst p))))"
  unfolding isSquareAttacked_def Let_def list_ex_iff by (auto simp: case_prod_beta)

lemma raw_vs_pseudo:
  assumes t: "board (row, col) = Some target" "fst target \<noteq> oc"
    and p: "board (pr, pc) = Some (oc, ty)" "isValidCoord pr pc"
  shows "(row, col) \<in> set (generatePieceMoves board pr pc ty) \<longleftrightarrow>
         (\<exists>moves. getPseudoLegalMoves board pr pc = Inr moves \<and> (row, col) \<in> set moves)"
proof -
  have r: "readCell board pr pc = Inr (Some (oc, ty))"
    using p by (simp add: readCell_def isValidCoord_def)
  show ?thesis
  proof (cases ty)
    case Pawn
    with r have "getPseudoLegalMoves board pr pc = Inr (getPawnMoves board pr pc oc)"
      by (simp add: getPseudoLegalMoves_def)
    with pawn_raw_iff [where board = board and row = row and col = col, OF t(1), of pr pc oc]
      pawn_pseudo_iff [where board = board and row = row and col = col, OF t, of pr pc]
      p(1) Pawn
    show ?thesis by simp
  next
    case Knight
    with r have "getPseudoLegalMoves board pr pc = Inr (getKnightMoves board pr pc oc)"
      by (simp add: getPseudoLegalMoves_def)
    with rawSteps_stepMoves [where board = board and row = row and col = col, OF t, of pr pc knightOffsets] Knight
    show ?thesis by (simp add: generatePieceMoves_def getKnightMoves_def)
  next
    case Bishop
    with r have "getPseudoLegalMoves board pr pc = Inr (getBishopMoves board pr pc oc)"
      by (simp add: getPseudoLegalMoves_def)
    with rawRays_slideMoves [where board = board and row = row and col = col, OF t, of pr pc bishopDirections] Bishop
    show ?thesis by (simp add: generatePieceMoves_def getBishopMoves_def)
  next
    case Rook
    with r have "getPseudoLegalMoves board pr pc = Inr (getRookMoves board pr pc oc)"
      by (simp add: getPseudoLegalMoves_def)
    with rawRays_slideMoves [where board = board and row = row and col = col, OF t, of pr pc rookDirections] Rook
    show ?thesis by (simp add: generatePieceMoves_def getRookMoves_def)
  next
    case Queen
    with r have "getPseudoLegalMoves board pr pc = Inr (getQueenMoves board pr pc oc)"
      by (simp add: getPseudoLegalMoves_def)
    with rawRays_slideMoves [where board = board and row = row and col = col, OF t, of pr pc "rookDirections @ bishopDirections"] Queen
    show ?thesis by (simp add: generatePieceMoves_def getQueenMoves_def)
  next
    case King
    with r have "getPseudoLegalMoves board pr pc = Inr (getKingMoves board pr pc oc)"
      by (simp add: getPseudoLegalMoves_def)
    with rawSteps_stepMoves [where board = board and row = row and col = col, OF t, of pr pc kingOffsets] King
    show ?thesis by (simp add: generatePieceMoves_def getKingMoves_def)
  qed
qed


text \<open>
  C3 as stated fails. On \<open>lonePawn\<close> the empty square d6 (row 2, column 3), diagonally
  in front of the black pawn, is not attacked for \<open>isSquareAttacked\<close> though it is one
  of the pawn's two attack squares; and the empty square e6 (row 2, column 4), straight
  in front of the pawn, is attacked for \<open>isSquareAttacked\<close> though a forward push is no
  attack.
\<close>

theorem pawn_attack_differs_on_empty_squares:
  "lonePawn (2, 3) = None \<and> \<not> isSquareAttacked lonePawn 2 3 White \<and>
   spec_isSquareAttacked lonePawn 2 3 White \<and>
   lonePawn (2, 4) = None \<and> isSquareAttacked lonePawn 2 4 White \<and>
   \<not> spec_isSquareAttacked lonePawn 2 4 White"
  by code_simp

text \<open>
  C3, as the code has it, on the squares the rules test: for a square that holds a
  piece of the defending colour (as the king's square does), \<open>isSquareAttacked\<close> is
  true exactly when some opposing piece has the square among its pseudo-legal
  destinations; and an opposing pawn has such a square among its raw moves exactly when
  it is one of the pawn's two diagonal-forward squares.
\<close>

theorem occupied_square_attacked_iff:
  assumes "board (row, col) = Some target" and "fst target = color"
  shows "(isSquareAttacked board row col color \<longleftrightarrow>
            (\<exists>p \<in> set (getPiecesOfColor board (opponentOf color)).
               \<exists>moves. getPseudoLegalMoves board (fst (snd p)) (snd (snd p)) = Inr moves \<and>
                        (row, col) \<in> set moves)) \<and>
         (\<forall>pRow pCol. board (pRow, pCol) = Some (opponentOf color, Pawn) \<longrightarrow>
            ((row, col) \<in> set (generatePieceMoves board pRow pCol Pawn) \<longleftrightarrow>
               isValidCoord row col \<and>
               row = pRow + (if opponentOf color = White then - 1 else 1) \<and>
               \<bar>col - pCol\<bar> = 1))"
proof -
  have t: "board (row, col) = Some target" "fst target \<noteq> opponentOf color"
    using assms opponentOf_neq [of color] by auto
  have each: "(row, col) \<in> set (generatePieceMoves board (fst (snd p)) (snd (snd p)) (snd (fst p)))
      \<longleftrightarrow> (\<exists>moves. getPseudoLegalMoves board (fst (snd p)) (snd (snd p)) = Inr moves \<and>
                        (row, col) \<in> set moves)"
    if "p \<in> set (getPiecesOfColor board (opponentOf color))" for p
  proof -
    from getPiecesOfColor_valid [OF that]
    have "board (fst (snd p), snd (snd p)) = Some (opponentOf color, snd (fst p))"
      and "isValidCoord (fst (snd p)) (snd (snd p))"
      by (auto simp: prod_eq_iff)
    from raw_vs_pseudo [where board = board and row = row and col = col, OF t this]
    show ?thesis .
  qed
  have "isSquareAttacked board row col color \<longleftrightarrow>
            (\<exists>p \<in> set (getPiecesOfColor board (opponentOf color)).
               \<exists>moves. getPseudoLegalMoves board (fst (snd p)) (snd (snd p)) = Inr moves \<and>
                        (row, col) \<in> set moves)"
    unfolding isSquareAttacked_iff using each by blast
  with pawn_raw_iff [where board = board and row = row and col = col, OF t(1)]
  show ?thesis by blast
qed

theorem occupied_square_attacked_iff_witness:
  "blackMated (0, 0) = Some (Black, King) \<and> isSquareAttacked blackMated 0 0 Black \<and>
   ((White, Queen), 1, 1) \<in> set (getPiecesOfColor blackMated (opponentOf Black)) \<and>
   getPseudoLegalMoves blackMated 1 1
     = Inr [(1, 2), (1, 3), (1, 4), (1, 5), (1, 6), (1, 7), (1, 0), (2, 1), (3, 1), (4, 1),
            (5, 1), (6, 1), (7, 1), (0, 1), (2, 0), (0, 2), (0, 0)]"
proof -
  have c: "blackMated (0, 0) = Some (Black, King)" by code_simp
  have a: "isSquareAttacked blackMated 0 0 Black" by code_simp
  have q: "((White, Queen), 1, 1) \<in> set (getPiecesOfColor blackMated (opponentOf Black))"
    by code_simp
  have m: "getPseudoLegalMoves blackMated 1 1
     = Inr [(1, 2), (1, 3), (1, 4), (1, 5), (1, 6), (1, 7), (1, 0), (2, 1), (3, 1), (4, 1),
            (5, 1), (6, 1), (7, 1), (0, 1), (2, 0), (0, 2), (0, 0)]"
    by code_simp
  from occupied_square_attacked_iff [where board = blackMated and row = 0 and col = 0, OF c,
      of Black] c a q m
  show ?thesis by simp
qed

subsection \<open>Scores\<close>

lemma NegInf_le [simp]: "NegInf \<le> (x::score)"
  by simp

lemma le_PosInf [simp]: "(x::score) \<le> PosInf"
  by (cases x) simp_all

lemma NegInf_less_iff: "NegInf < (x::score) \<longleftrightarrow> x \<noteq> NegInf"
  by (cases x) (simp_all add: less_score_def)

lemma less_PosInf_iff: "(x::score) < PosInf \<longleftrightarrow> x \<noteq> PosInf"
  by (cases x) (simp_all add: less_score_def)

lemma max_NegInf [simp]: "max (x::score) NegInf = x" "max NegInf (x::score) = x"
  by (simp_all add: max_def) (cases x; simp)

lemma min_PosInf [simp]: "min (x::score) PosInf = x" "min PosInf (x::score) = x"
  by (simp_all add: min_def) (cases x; simp)

lemma windowAgrees_refl: "windowAgrees alpha beta v v"
  by (simp add: windowAgrees_def)

lemma windowAgrees_full: "windowAgrees NegInf PosInf r v \<Longrightarrow> r = v"
  unfolding windowAgrees_def
  by (cases r; cases v) (simp_all add: less_score_def)

subsection \<open>The loops of the two searches\<close>

lemma minimaxSearchLoop_returns:
  assumes "\<forall>m \<in> set ms. \<exists>v. child m = Inr v"
  shows "\<exists>V. minimaxSearchLoop isMax child ms best = Inr V"
  using assms by (induction ms arbitrary: best) auto

lemma minimaxSearchLoop_max_ge:
  "minimaxSearchLoop True child ms best = Inr V \<Longrightarrow> best \<le> V"
proof (induction ms arbitrary: best)
  case Nil
  then show ?case by simp
next
  case (Cons m ms)
  then obtain s where "child m = Inr s"
    and "minimaxSearchLoop True child ms (max best s) = Inr V"
    by (auto split: sum.splits)
  with Cons.IH [of "max best s"] show ?case by simp
qed

lemma minimaxSearchLoop_min_le:
  "minimaxSearchLoop False child ms best = Inr V \<Longrightarrow> V \<le> best"
proof (induction ms arbitrary: best)
  case Nil
  then show ?case by simp
next
  case (Cons m ms)
  then obtain s where "child m = Inr s"
    and "minimaxSearchLoop False child ms (min best s) = Inr V"
    by (auto split: sum.splits)
  with Cons.IH [of "min best s"] show ?case by simp
qed

lemma alphaBeta_max_loop:
  fixes a0 beta best bm :: score
  assumes "\<forall>m \<in> set ms. \<exists>v. mm m = Inr v \<and>
             (\<forall>a b. a < b \<longrightarrow> (\<exists>r. ab m a b = Inr r \<and> windowAgrees a b r v))"
    and "a0 < beta" "best < beta" "best \<le> a0 \<longrightarrow> bm \<le> best" "a0 < best \<longrightarrow> best = bm"
  shows "\<exists>V R. minimaxSearchLoop True mm ms bm = Inr V \<and>
               alphaBetaSearchLoop True ab ms (max a0 best) beta best = Inr R \<and>
               windowAgrees a0 beta R V"
  using assms
proof (induction ms arbitrary: best bm)
  case Nil
  then show ?case by (auto simp: windowAgrees_def)
next
  case (Cons m ms)
  from Cons.prems(1) obtain v where v: "mm m = Inr v"
    and w: "\<forall>a b. a < b \<longrightarrow> (\<exists>r. ab m a b = Inr r \<and> windowAgrees a b r v)"
    by auto
  have rest: "\<forall>m \<in> set ms. \<exists>v. mm m = Inr v \<and>
             (\<forall>a b. a < b \<longrightarrow> (\<exists>r. ab m a b = Inr r \<and> windowAgrees a b r v))"
    using Cons.prems(1) by simp
  have lt: "max a0 best < beta" using Cons.prems(2,3) by simp
  with w obtain r where r: "ab m (max a0 best) beta = Inr r"
    and wr: "windowAgrees (max a0 best) beta r v" by blast
  have alpha': "max (max a0 best) (max best r) = max a0 (max best r)"
    by (simp add: max.assoc)
  show ?case
  proof (cases "beta \<le> max a0 (max best r)")
    case True
    from rest have "\<forall>m \<in> set ms. \<exists>v. mm m = Inr v" by blast
    from minimaxSearchLoop_returns [OF this] obtain V where
      V: "minimaxSearchLoop True mm ms (max bm v) = Inr V" by blast
    from minimaxSearchLoop_max_ge [OF V] have bv: "v \<le> V" by simp
    from True Cons.prems(2,3) have br: "beta \<le> r"
      by (auto simp: max_def split: if_splits)
    with wr have "r \<le> v" by (simp add: windowAgrees_def)
    with bv have rV: "r \<le> V" by simp
    from br Cons.prems(3) have "best \<le> r" by simp
    then have m: "max best r = r" by (simp add: max_absorb2)
    have "windowAgrees a0 beta (max best r) V"
      unfolding m windowAgrees_def using br rV Cons.prems(2) by auto
    with v r V True alpha' show ?thesis by simp
  next
    case False
    then have b': "max best r < beta" by (simp add: not_le)
    then have rb: "r < beta" by simp
    have i1: "max best r \<le> a0 \<longrightarrow> max bm v \<le> max best r"
      using wr Cons.prems(4,5) rb unfolding windowAgrees_def
      by (auto simp: max_def split: if_splits)
    have i2: "a0 < max best r \<longrightarrow> max best r = max bm v"
      using wr Cons.prems(3,4,5) rb unfolding windowAgrees_def
      by (auto simp: max_def split: if_splits)
    from Cons.IH [OF rest Cons.prems(2) b' i1 i2] obtain V R where
      "minimaxSearchLoop True mm ms (max bm v) = Inr V"
      "alphaBetaSearchLoop True ab ms (max a0 (max best r)) beta (max best r) = Inr R"
      "windowAgrees a0 beta R V" by blast
    with v r False alpha' show ?thesis by simp
  qed
qed

lemma alphaBeta_min_loop:
  fixes alpha b0 best bm :: score
  assumes "\<forall>m \<in> set ms. \<exists>v. mm m = Inr v \<and>
             (\<forall>a b. a < b \<longrightarrow> (\<exists>r. ab m a b = Inr r \<and> windowAgrees a b r v))"
    and "alpha < b0" "alpha < best" "b0 \<le> best \<longrightarrow> best \<le> bm" "best < b0 \<longrightarrow> best = bm"
  shows "\<exists>V R. minimaxSearchLoop False mm ms bm = Inr V \<and>
               alphaBetaSearchLoop False ab ms alpha (min b0 best) best = Inr R \<and>
               windowAgrees alpha b0 R V"
  using assms
proof (induction ms arbitrary: best bm)
  case Nil
  then show ?case by (auto simp: windowAgrees_def)
next
  case (Cons m ms)
  from Cons.prems(1) obtain v where v: "mm m = Inr v"
    and w: "\<forall>a b. a < b \<longrightarrow> (\<exists>r. ab m a b = Inr r \<and> windowAgrees a b r v)"
    by auto
  have rest: "\<forall>m \<in> set ms. \<exists>v. mm m = Inr v \<and>
             (\<forall>a b. a < b \<longrightarrow> (\<exists>r. ab m a b = Inr r \<and> windowAgrees a b r v))"
    using Cons.prems(1) by simp
  have lt: "alpha < min b0 best" using Cons.prems(2,3) by simp
  with w obtain r where r: "ab m alpha (min b0 best) = Inr r"
    and wr: "windowAgrees alpha (min b0 best) r v" by blast
  have beta': "min (min b0 best) (min best r) = min b0 (min best r)"
    by (simp add: min.assoc)
  show ?case
  proof (cases "min b0 (min best r) \<le> alpha")
    case True
    from rest have "\<forall>m \<in> set ms. \<exists>v. mm m = Inr v" by blast
    from minimaxSearchLoop_returns [OF this] obtain V where
      V: "minimaxSearchLoop False mm ms (min bm v) = Inr V" by blast
    from minimaxSearchLoop_min_le [OF V] have bv: "V \<le> v" by simp
    from True Cons.prems(2,3) have br: "r \<le> alpha"
      by (auto simp: min_def split: if_splits)
    with wr have "v \<le> r" by (simp add: windowAgrees_def)
    with bv have rV: "V \<le> r" by simp
    from br Cons.prems(3) have "r \<le> best" by simp
    then have m: "min best r = r" by (simp add: min_absorb2)
    have "windowAgrees alpha b0 (min best r) V"
      unfolding m windowAgrees_def using br rV Cons.prems(2) by auto
    with v r V True beta' show ?thesis by simp
  next
    case False
    then have b': "alpha < min best r" by (simp add: not_le)
    then have rb: "alpha < r" by simp
    have i1: "b0 \<le> min best r \<longrightarrow> min best r \<le> min bm v"
      using wr Cons.prems(4,5) rb unfolding windowAgrees_def
      by (auto simp: min_def split: if_splits)
    have i2: "min best r < b0 \<longrightarrow> min best r = min bm v"
      using wr Cons.prems(3,4,5) rb unfolding windowAgrees_def
      by (auto simp: min_def split: if_splits)
    from Cons.IH [OF rest Cons.prems(2) b' i1 i2] obtain V R where
      "minimaxSearchLoop False mm ms (min bm v) = Inr V"
      "alphaBetaSearchLoop False ab ms alpha (min b0 (min best r)) (min best r) = Inr R"
      "windowAgrees alpha b0 R V" by blast
    with v r False beta' show ?thesis by simp
  qed
qed


lemma alphaBeta_loop_start:
  fixes alpha beta :: score
  assumes ch: "\<forall>m \<in> set ms. \<exists>v. mm m = Inr v \<and>
             (\<forall>a b. a < b \<longrightarrow> (\<exists>r. ab m a b = Inr r \<and> windowAgrees a b r v))"
    and lt: "alpha < beta"
  shows "\<exists>V R. minimaxSearchLoop isMax mm ms (if isMax then NegInf else PosInf) = Inr V \<and>
               alphaBetaSearchLoop isMax ab ms alpha beta (if isMax then NegInf else PosInf)
                 = Inr R \<and>
               windowAgrees alpha beta R V"
proof -
  have nb: "NegInf < beta" and ap: "alpha < PosInf"
    using lt by (cases alpha; cases beta; simp add: less_score_def)+
  show ?thesis
  proof (cases isMax)
    case True
    from alphaBeta_max_loop [OF ch lt nb, of NegInf] True show ?thesis by simp
  next
    case False
    from alphaBeta_min_loop [OF ch lt ap, of PosInf] False show ?thesis by simp
  qed
qed

subsection \<open>The moves of a node and the positions after them\<close>

lemma collectLegalMoves_returns:
  assumes "enPassantRowOnBoard enPassant"
    and "\<forall>p \<in> set pieces. 0 \<le> fst (snd p) \<and> fst (snd p) < 8"
  shows "\<exists>ms. collectLegalMoves board color rights enPassant pieces = Inr ms"
  using assms(2)
proof (induction pieces)
  case Nil
  then show ?case by simp
next
  case (Cons p ps)
  then obtain legal where
    "getLegalMoves board (fst (snd p)) (snd (snd p)) rights enPassant color = Inr legal"
    using getLegalMoves_returns [OF _ _ assms(1), of "fst (snd p)" board "snd (snd p)" rights color]
    by auto
  moreover from Cons obtain ms where
    "collectLegalMoves board color rights enPassant ps = Inr ms" by auto
  ultimately show ?case by (simp add: Let_def)
qed

lemma collectLegalMoves_rows:
  assumes "collectLegalMoves board color rights enPassant pieces = Inr ms" and "m \<in> set ms"
  shows "0 \<le> fst (fst m) \<and> fst (fst m) < 8 \<and> 0 \<le> fst (snd m) \<and> fst (snd m) < 8"
  using assms
proof (induction pieces arbitrary: ms)
  case Nil
  then show ?case by simp
next
  case (Cons p ps)
  from Cons.prems(1) obtain legal rest where
    l: "getLegalMoves board (fst (snd p)) (snd (snd p)) rights enPassant color = Inr legal"
    and c: "collectLegalMoves board color rights enPassant ps = Inr rest"
    and ms: "ms = map (\<lambda>dest. ((fst (snd p), snd (snd p)), dest)) legal @ rest"
    by (auto simp: Let_def split: sum.splits)
  from Cons.prems(2) ms consider dest where "dest \<in> set legal"
      "m = ((fst (snd p), snd (snd p)), dest)" | "m \<in> set rest"
    by auto
  then show ?case
  proof cases
    case 1
    with getLegalMoves_rows [OF l 1(1)] show ?thesis by simp
  next
    case 2
    with Cons.IH [OF c] show ?thesis by simp
  qed
qed

lemma getAllLegalMoves_returns:
  "enPassantRowOnBoard enPassant
     \<Longrightarrow> \<exists>ms. getAllLegalMoves board color rights enPassant = Inr ms"
  unfolding getAllLegalMoves_def using collectLegalMoves_returns [OF _ pieces_rows] by blast

lemma getAllLegalMoves_rows:
  assumes "getAllLegalMoves board color rights enPassant = Inr ms" and "m \<in> set ms"
  shows "0 \<le> fst (fst m) \<and> fst (fst m) < 8 \<and> 0 \<le> fst (snd m) \<and> fst (snd m) < 8"
  using assms collectLegalMoves_rows unfolding getAllLegalMoves_def by blast

lemma mid_row:
  "0 \<le> a \<Longrightarrow> a < 8 \<Longrightarrow> 0 \<le> b \<Longrightarrow> b < 8 \<Longrightarrow> 0 \<le> (a + b) div 2 \<and> (a + b) div 2 < (8::int)"
  by presburger

lemma simulateMove_returns:
  assumes "0 \<le> fst (fst m)" "fst (fst m) < 8" "0 \<le> fst (snd m)" "fst (snd m) < 8"
  shows "\<exists>nb nc ne. simulateMove board m rights enPassant = Inr (nb, nc, ne) \<and>
                    enPassantRowOnBoard ne"
proof -
  obtain tb where b: "boardAfterMove board (fst (fst m)) (snd (fst m)) (fst (snd m))
                        (snd (snd m)) enPassant = Inr tb"
    using boardAfterMove_Inr_iff [of board "fst (fst m)" "snd (fst m)" "fst (snd m)"
        "snd (snd m)" enPassant] assms by blast
  obtain piece where p: "readCell board (fst (fst m)) (snd (fst m)) = Inr piece"
    using assms by (simp add: readCell_def)
  obtain captured where c: "readCell board (fst (snd m)) (snd (snd m)) = Inr captured"
    using assms by (simp add: readCell_def)
  have e: "enPassantRowOnBoard (if getPieceType piece = Some Pawn \<and>
                \<bar>fst (snd m) - fst (fst m)\<bar> = 2
             then Some ((fst (fst m) + fst (snd m)) div 2, snd (snd m)) else None)"
    using mid_row [OF assms] by (simp add: enPassantRowOnBoard_def)
  show ?thesis
    unfolding simulateMove_def Let_def b p c using e by simp
qed

lemma terminalScore_returns:
  assumes "enPassantRowOnBoard enPassant"
  shows "\<exists>x. terminalScore board color rights enPassant isMax = Inr x"
proof -
  obtain x where "isCheckmate board (if isMax then color else opponentOf color) rights enPassant
                    = Inr x"
    using isCheckmate_returns [OF assms] by blast
  moreover obtain y where
    "isStalemate board (if isMax then color else opponentOf color) rights enPassant = Inr y"
    using isStalemate_returns [OF assms] by blast
  ultimately show ?thesis
    unfolding terminalScore_def Let_def by (cases x; cases y) auto
qed

subsection \<open>The two searches\<close>

lemma minimaxSearch_unfold:
  "minimaxSearch board color rights enPassant depth isMax =
     (case terminalScore board color rights enPassant isMax of
        Inl e \<Rightarrow> Inl e
      | Inr (Some s) \<Rightarrow> Inr s
      | Inr None \<Rightarrow>
          (case depth of
             0 \<Rightarrow> Inr (Fin (evaluateBoard board color))
           | Suc d \<Rightarrow>
               (case getAllLegalMoves board (if isMax then color else opponentOf color)
                       rights enPassant of
                  Inl e \<Rightarrow> Inl e
                | Inr moves \<Rightarrow>
                    minimaxSearchLoop isMax
                      (\<lambda>move. case simulateMove board move rights enPassant of
                                 Inl e \<Rightarrow> Inl e
                               | Inr (newBoard, newCastling, newEnPassant) \<Rightarrow>
                                   minimaxSearch newBoard color newCastling newEnPassant d
                                     (\<not> isMax))
                      moves (if isMax then NegInf else PosInf))))"
  by (subst minimaxSearch.simps)
     (simp add: terminalScore_def Let_def split: sum.splits bool.splits)

lemma minimaxSearchAlphaBeta_unfold:
  "minimaxSearchAlphaBeta board color rights enPassant depth alpha beta isMax =
     (case terminalScore board color rights enPassant isMax of
        Inl e \<Rightarrow> Inl e
      | Inr (Some s) \<Rightarrow> Inr s
      | Inr None \<Rightarrow>
          (case depth of
             0 \<Rightarrow> Inr (Fin (evaluateBoard board color))
           | Suc d \<Rightarrow>
               (case getAllLegalMoves board (if isMax then color else opponentOf color)
                       rights enPassant of
                  Inl e \<Rightarrow> Inl e
                | Inr moves \<Rightarrow>
                    alphaBetaSearchLoop isMax
                      (\<lambda>move a b. case simulateMove board move rights enPassant of
                                 Inl e \<Rightarrow> Inl e
                               | Inr (newBoard, newCastling, newEnPassant) \<Rightarrow>
                                   minimaxSearchAlphaBeta newBoard color newCastling
                                     newEnPassant d a b (\<not> isMax))
                      moves alpha beta (if isMax then NegInf else PosInf))))"
  by (subst minimaxSearchAlphaBeta.simps)
     (simp add: terminalScore_def Let_def split: sum.splits bool.splits)

lemma minimaxSearch_returns:
  "enPassantRowOnBoard enPassant
     \<Longrightarrow> \<exists>v. minimaxSearch board color rights enPassant depth isMax = Inr v"
proof (induction depth arbitrary: board rights enPassant isMax)
  case 0
  from terminalScore_returns [OF 0] obtain x where
    "terminalScore board color rights enPassant isMax = Inr x" by blast
  then show ?case by (cases x) (simp_all add: minimaxSearch_unfold [where depth = 0])
next
  case (Suc d)
  from terminalScore_returns [OF Suc.prems] obtain x where
    x: "terminalScore board color rights enPassant isMax = Inr x" by blast
  from getAllLegalMoves_returns [OF Suc.prems] obtain moves where
    g: "getAllLegalMoves board (if isMax then color else opponentOf color) rights enPassant
          = Inr moves" by blast
  let ?child = "\<lambda>move. case simulateMove board move rights enPassant of
                          Inl e \<Rightarrow> Inl e
                        | Inr (newBoard, newCastling, newEnPassant) \<Rightarrow>
                            minimaxSearch newBoard color newCastling newEnPassant d (\<not> isMax)"
  have "\<exists>v. ?child m = Inr v" if "m \<in> set moves" for m
  proof -
    from getAllLegalMoves_rows [OF g that] simulateMove_returns [of m board rights enPassant]
    obtain nb nc ne where "simulateMove board m rights enPassant = Inr (nb, nc, ne)"
      and "enPassantRowOnBoard ne" by blast
    with Suc.IH [of ne nb nc "\<not> isMax"] show ?thesis by simp
  qed
  then have "\<forall>m \<in> set moves. \<exists>v. ?child m = Inr v" by blast
  from minimaxSearchLoop_returns [OF this] obtain V where
    "minimaxSearchLoop isMax ?child moves (if isMax then NegInf else PosInf) = Inr V"
    by blast
  with x g show ?case
    by (cases x) (simp_all add: minimaxSearch_unfold [where depth = "Suc d"])
qed

lemma searches_agree:
  "alpha < beta \<Longrightarrow>
   searchesAgree alpha beta
     (minimaxSearch board color rights enPassant depth isMax)
     (minimaxSearchAlphaBeta board color rights enPassant depth alpha beta isMax)"
proof (induction depth arbitrary: board rights enPassant isMax alpha beta)
  case 0
  show ?case
    by (simp add: minimaxSearch_unfold [where depth = 0]
          minimaxSearchAlphaBeta_unfold [where depth = 0] searchesAgree_def windowAgrees_refl
          split: sum.splits option.splits)
next
  case (Suc d)
  let ?side = "if isMax then color else opponentOf color"
  let ?mm = "\<lambda>move. case simulateMove board move rights enPassant of
                          Inl e \<Rightarrow> Inl e
                        | Inr (newBoard, newCastling, newEnPassant) \<Rightarrow>
                            minimaxSearch newBoard color newCastling newEnPassant d (\<not> isMax)"
  let ?ab = "\<lambda>move a b. case simulateMove board move rights enPassant of
                          Inl e \<Rightarrow> Inl e
                        | Inr (newBoard, newCastling, newEnPassant) \<Rightarrow>
                            minimaxSearchAlphaBeta newBoard color newCastling newEnPassant d
                              a b (\<not> isMax)"
  show ?case
  proof (cases "terminalScore board color rights enPassant isMax")
    case (Inl e)
    then show ?thesis
      by (simp add: minimaxSearch_unfold [where depth = "Suc d"]
            minimaxSearchAlphaBeta_unfold [where depth = "Suc d"] searchesAgree_def)
  next
    case (Inr x)
    show ?thesis
    proof (cases x)
      case (Some s)
      with Inr show ?thesis
        by (simp add: minimaxSearch_unfold [where depth = "Suc d"]
              minimaxSearchAlphaBeta_unfold [where depth = "Suc d"] searchesAgree_def
              windowAgrees_refl)
    next
      case None
      show ?thesis
      proof (cases "getAllLegalMoves board ?side rights enPassant")
        case (Inl e)
        with Inr None show ?thesis
          by (simp add: minimaxSearch_unfold [where depth = "Suc d"]
                minimaxSearchAlphaBeta_unfold [where depth = "Suc d"] searchesAgree_def)
      next
        case g: (Inr moves)
        have ch: "\<forall>m \<in> set moves. \<exists>v. ?mm m = Inr v \<and>
             (\<forall>a b. a < b \<longrightarrow> (\<exists>r. ?ab m a b = Inr r \<and> windowAgrees a b r v))"
        proof
          fix m assume "m \<in> set moves"
          from getAllLegalMoves_rows [OF g this]
            simulateMove_returns [of m board rights enPassant]
          obtain nb nc ne where s: "simulateMove board m rights enPassant = Inr (nb, nc, ne)"
            and e: "enPassantRowOnBoard ne" by blast
          from minimaxSearch_returns [OF e] obtain v where
            v: "minimaxSearch nb color nc ne d (\<not> isMax) = Inr v" by blast
          have "\<exists>r. minimaxSearchAlphaBeta nb color nc ne d a b (\<not> isMax) = Inr r \<and>
                    windowAgrees a b r v" if "a < b" for a b
            using Suc.IH [OF that, of nb nc ne "\<not> isMax"] v
            by (auto simp: searchesAgree_def split: sum.splits)
          with s v show "\<exists>v. ?mm m = Inr v \<and>
             (\<forall>a b. a < b \<longrightarrow> (\<exists>r. ?ab m a b = Inr r \<and> windowAgrees a b r v))"
            by simp
        qed
        from alphaBeta_loop_start [OF ch Suc.prems, of isMax]
        obtain V R where
          "minimaxSearchLoop isMax ?mm moves (if isMax then NegInf else PosInf) = Inr V"
          "alphaBetaSearchLoop isMax ?ab moves alpha beta (if isMax then NegInf else PosInf)
             = Inr R"
          "windowAgrees alpha beta R V"
          by blast
        with Inr None g show ?thesis
          by (simp add: minimaxSearch_unfold [where depth = "Suc d"]
                minimaxSearchAlphaBeta_unfold [where depth = "Suc d"] searchesAgree_def)
      qed
    qed
  qed
qed

text \<open>
  C4. Alpha-beta equivalence: called with the full window, the alpha-beta search returns
  what the plain search returns on the same arguments: the same score, or, where the
  classifier raises at the root, the same error.
\<close>

theorem alpha_beta_equals_minimax:
  "minimaxSearchAlphaBeta board color rights enPassant depth NegInf PosInf isMaximizing =
   minimaxSearch board color rights enPassant depth isMaximizing"
proof -
  have "NegInf < PosInf" by (simp add: less_score_def)
  from searches_agree [OF this, of board color rights enPassant depth isMaximizing]
  show ?thesis
    by (auto simp: searchesAgree_def split: sum.splits dest: windowAgrees_full)
qed

subsection \<open>The code where a claim fails, for every input\<close>

text \<open>
  What \<open>getCastlingMoves\<close> yields, for every input: the king's column does not occur
  on the right-hand side.
\<close>

lemma getCastlingMoves_iff:
  "(r, c) \<in> set (getCastlingMoves board kingRow kingCol color rights) \<longleftrightarrow>
     (color = White \<and> kingRow = 7 \<and> r = 7 \<and>
        (c = 6 \<and> whiteKingside rights \<and> board (7, 7) = Some (White, Rook) \<and>
           board (7, 5) = None \<and> board (7, 6) = None \<or>
         c = 2 \<and> whiteQueenside rights \<and> board (7, 0) = Some (White, Rook) \<and>
           board (7, 1) = None \<and> board (7, 2) = None \<and> board (7, 3) = None)) \<or>
     (color = Black \<and> kingRow = 0 \<and> r = 0 \<and>
        (c = 6 \<and> blackKingside rights \<and> board (0, 7) = Some (Black, Rook) \<and>
           board (0, 5) = None \<and> board (0, 6) = None \<or>
         c = 2 \<and> blackQueenside rights \<and> board (0, 0) = Some (Black, Rook) \<and>
           board (0, 1) = None \<and> board (0, 2) = None \<and> board (0, 3) = None))"
  by (cases color) (auto simp: getCastlingMoves_def Let_def)

text \<open>
  The terminal scores of both searches, for every position: the score of a position the
  classifier ends, whatever the depth and the window, and the sign the code gives a
  checkmate of the side to move.
\<close>

lemma terminal_score_returned:
  assumes "terminalScore board color rights enPassant isMax = Inr (Some s)"
  shows "minimaxSearch board color rights enPassant depth isMax = Inr s \<and>
         minimaxSearchAlphaBeta board color rights enPassant depth alpha beta isMax = Inr s"
  using assms
  by (simp add: minimaxSearch_unfold [where depth = depth]
        minimaxSearchAlphaBeta_unfold [where depth = depth])

lemma terminalScore_checkmate:
  assumes "isCheckmate board (if isMax then color else opponentOf color) rights enPassant
             = Inr True"
  shows "terminalScore board color rights enPassant isMax
           = Inr (Some (Fin (if isMax then 10000 else - 10000)))"
  using assms by (simp add: terminalScore_def Let_def)

lemma terminalScore_draw:
  assumes "isCheckmate board (if isMax then color else opponentOf color) rights enPassant
             = Inr False"
    and "isStalemate board (if isMax then color else opponentOf color) rights enPassant
             = Inr True \<or>
         isStalemate board (if isMax then color else opponentOf color) rights enPassant
             = Inr False \<and> isInsufficientMaterial board"
  shows "terminalScore board color rights enPassant isMax = Inr (Some (Fin 0))"
  using assms by (auto simp: terminalScore_def Let_def)

lemma depth_exhausted_score:
  assumes "terminalScore board color rights enPassant isMax = Inr None"
  shows "minimaxSearch board color rights enPassant 0 isMax
           = Inr (Fin (evaluateBoard board color)) \<and>
         minimaxSearchAlphaBeta board color rights enPassant 0 alpha beta isMax
           = Inr (Fin (evaluateBoard board color))"
  using assms
  by (simp add: minimaxSearch_unfold [where depth = 0]
        minimaxSearchAlphaBeta_unfold [where depth = 0])

end
